theory Spec2Isabelle
  imports Main "HOL-Library.AList"
begin

section \<open>Values, rows and tables\<close>

text \<open>
  The engine stores Python values in rows. The values that occur in the parts of
  \<^verbatim>\<open>database.py\<close> treated here are \<^verbatim>\<open>None\<close>, integers, strings and lists of row
  positions (the \<^verbatim>\<open>indexes\<close> column of \<^verbatim>\<open>meta_insert_stack\<close>).
\<close>

datatype val = VNone | VInt int | VStr string | VList "nat list"

type_synonym row = "val list"

text \<open>
  The fields of a \<^verbatim>\<open>Table\<close> object that \<^verbatim>\<open>database.py\<close> reads: \<^verbatim>\<open>_name\<close>,
  \<^verbatim>\<open>column_names\<close>, \<^verbatim>\<open>column_types\<close>, \<^verbatim>\<open>pk\<close>, \<^verbatim>\<open>pk_idx\<close>, \<^verbatim>\<open>unique_columns\<close>
  and \<^verbatim>\<open>data\<close>. An absent primary key or unique-column list is Python's \<^verbatim>\<open>None\<close>.
\<close>

record table =
  t_name :: string
  column_names :: "string list"
  column_types :: "string list"
  pk :: "string option"
  pk_idx :: "nat option"
  unique_columns :: "string list option"
  data :: "row list"

text \<open>
  Every \<^verbatim>\<open>raise\<close> of the modelled code, and every Python exception its statements
  can throw, is a value of this type. \<open>Locked p\<close> is the
  \<^verbatim>\<open>Exception('Table ... is locked by process with pid=p')\<close> of the lock manager,
  \<open>IndexUnavailable\<close> the \<^verbatim>\<open>Exception('Index-nested-loop join cannot be executed ...')\<close>
  of \<^verbatim>\<open>join\<close>.
\<close>

datatype error =
    Locked val
  | NotInDatabase string
  | NotImplementedError
  | IndexError
  | KeyError string
  | TypeError
  | UnboundLocalError
  | FileNotFoundError string
  | IndexUnavailable
  | ConstraintViolation
  | SchemaMismatch
  | NoSuchColumn string
  | TableDoesNotExist string
  | IndexTypeNotSupported string
  | NoKeyOrUniqueColumn
  | NotKeyOrUniqueColumn
  | IndexNameExists
  | ColumnAlreadyIndexed
  | ValueError
  | AttributeError
  | NameError

text \<open>
  A type conversion \<^verbatim>\<open>type(value)\<close>, given the column type's name; \<open>None\<close> when
  the conversion raises. The conversions are Python's own constructors (reached through
  \<^verbatim>\<open>eval\<close>), so the model takes them as a parameter of every operation that inserts
  or casts.
\<close>

type_synonym coerce = "string \<Rightarrow> val \<Rightarrow> val option"

text \<open>
  A parsed condition \<^verbatim>\<open>column OP literal\<close>: the column's name and the test on the
  column's value. The textual parser is outside the engine.
\<close>

type_synonym cond = "string \<times> (val \<Rightarrow> bool)"

definition eq_cond :: "string \<Rightarrow> val \<Rightarrow> cond" where
  "eq_cond c v = (c, \<lambda>x. x = v)"

subsection \<open>The Table operations used by the database layer\<close>

fun index_of :: "'a list \<Rightarrow> 'a \<Rightarrow> nat option" where
  "index_of [] x = None"
| "index_of (y # ys) x = (if x = y then Some 0 else map_option Suc (index_of ys x))"

text \<open>
  Rows have one value per column (the data model of the spec); a read past the end of a
  short row yields the empty value.
\<close>

definition cell :: "row \<Rightarrow> nat \<Rightarrow> val" where
  "cell r i = (if i < length r then r ! i else VNone)"

definition tombstone :: "row \<Rightarrow> bool" where
  "tombstone r = list_all (\<lambda>v. v = VNone) r"

text \<open>
  Modelled from the spec: \<^verbatim>\<open>Table.column_by_name\<close> (\<^verbatim>\<open>table.py\<close> is not among the
  sources): the values of one column, in row-position order.
\<close>

definition column_by_name :: "table \<Rightarrow> string \<Rightarrow> error + val list" where
  "column_by_name t c =
     (case index_of (column_names t) c of
        None \<Rightarrow> Inl (NoSuchColumn c)
      | Some i \<Rightarrow> Inr (map (\<lambda>r. cell r i) (data t)))"

text \<open>
  Modelled from the spec: \<^verbatim>\<open>Table._select_where\<close> without ordering, limit or index
  hint: scans the non-tombstone rows, keeps those satisfying the predicate and projects
  the named columns (\<open>None\<close> is \<^verbatim>\<open>'*'\<close>).
\<close>

fun those_idx :: "string list \<Rightarrow> string list \<Rightarrow> error + nat list" where
  "those_idx cs [] = Inr []"
| "those_idx cs (c # rest) =
     (case index_of cs c of
        None \<Rightarrow> Inl (NoSuchColumn c)
      | Some i \<Rightarrow> (case those_idx cs rest of Inl e \<Rightarrow> Inl e | Inr js \<Rightarrow> Inr (i # js)))"

definition select_where :: "table \<Rightarrow> string list option \<Rightarrow> cond \<Rightarrow> error + row list" where
  "select_where t cols cnd =
     (case index_of (column_names t) (fst cnd) of
        None \<Rightarrow> Inl (NoSuchColumn (fst cnd))
      | Some i \<Rightarrow>
          (let hits = filter (\<lambda>r. \<not> tombstone r \<and> snd cnd (cell r i)) (data t) in
           case cols of
             None \<Rightarrow> Inr hits
           | Some cs \<Rightarrow>
               (case those_idx (column_names t) cs of
                  Inl e \<Rightarrow> Inl e
                | Inr js \<Rightarrow> Inr (map (\<lambda>r. map (cell r) js) hits))))"

text \<open>
  Modelled from the spec: \<^verbatim>\<open>Table._insert(row, insert_stack)\<close>: validates the column
  count and each column's type; rejects a row whose primary key or unique column
  duplicates an existing non-tombstone value; then overwrites the position on top of the
  free-position stack (its last element, the one \<^verbatim>\<open>insert_into\<close> removes afterwards),
  or appends when the stack is empty. Nothing is changed on failure.
\<close>

fun coerce_row :: "coerce \<Rightarrow> string list \<Rightarrow> row \<Rightarrow> row option" where
  "coerce_row cv [] [] = Some []"
| "coerce_row cv (ty # tys) (v # vs) =
     (case cv ty v of
        None \<Rightarrow> None
      | Some v' \<Rightarrow> (case coerce_row cv tys vs of None \<Rightarrow> None | Some vs' \<Rightarrow> Some (v' # vs')))"
| "coerce_row cv _ _ = None"

definition key_columns :: "table \<Rightarrow> string list" where
  "key_columns t =
     (case pk t of None \<Rightarrow> [] | Some k \<Rightarrow> [k]) @
     (case unique_columns t of None \<Rightarrow> [] | Some us \<Rightarrow> us)"

definition duplicates :: "table \<Rightarrow> row \<Rightarrow> bool" where
  "duplicates t r =
     list_ex (\<lambda>c. case index_of (column_names t) c of
                    None \<Rightarrow> False
                  | Some i \<Rightarrow> list_ex (\<lambda>old. \<not> tombstone old \<and> cell old i = cell r i) (data t))
       (key_columns t)"

definition insert_row :: "coerce \<Rightarrow> table \<Rightarrow> row \<Rightarrow> nat list \<Rightarrow> error + table" where
  "insert_row cv t r stack =
     (if length r \<noteq> length (column_names t) then Inl SchemaMismatch
      else case coerce_row cv (column_types t) r of
        None \<Rightarrow> Inl SchemaMismatch
      | Some r' \<Rightarrow>
          if duplicates t r' then Inl ConstraintViolation
          else if stack \<noteq> [] then
            (if last stack < length (data t)
             then Inr (t\<lparr>data := (data t)[last stack := r']\<rparr>)
             else Inl IndexError)
          else Inr (t\<lparr>data := data t @ [r']\<rparr>))"

text \<open>
  Modelled from the spec: \<^verbatim>\<open>Table._delete_where\<close>: every matching row is overwritten
  with a tombstone and its position recorded; the positions are returned. In a meta
  table (the lock table among them) a deleted record is removed, as the Lock Manager's
  release requires.
\<close>

definition delete_where :: "table \<Rightarrow> cond \<Rightarrow> error + (table \<times> nat list)" where
  "delete_where t cnd =
     (case index_of (column_names t) (fst cnd) of
        None \<Rightarrow> Inl (NoSuchColumn (fst cnd))
      | Some i \<Rightarrow>
          (let dead = filter (\<lambda>p. snd cnd (cell (data t ! p) i)) [0 ..< length (data t)] in
           if take 4 (t_name t) = ''meta''
           then Inr (t\<lparr>data := filter (\<lambda>r. \<not> snd cnd (cell r i)) (data t)\<rparr>, dead)
           else Inr (t\<lparr>data := map (\<lambda>p. if p \<in> set dead
                                          then replicate (length (column_names t)) VNone
                                          else data t ! p) [0 ..< length (data t)]\<rparr>, dead)))"

text \<open>
  Modelled from the spec: \<^verbatim>\<open>Table._update_rows(value, column, condition)\<close>: for
  every matching non-tombstone row, in position order, writes the value into the column;
  when the column is the primary key or a unique column and the value is already held
  by another non-tombstone row, the operation aborts there and the rows written so far
  stay written. Rows have one value per column, so the write is within the row.
\<close>

fun update_scan ::
  "nat \<Rightarrow> nat \<Rightarrow> (val \<Rightarrow> bool) \<Rightarrow> val \<Rightarrow> bool \<Rightarrow> row list \<Rightarrow> row list \<Rightarrow> (error + unit) \<times> row list" where
  "update_scan i j test v keyed seen [] = (Inr (), seen)"
| "update_scan i j test v keyed seen (r # rest) =
     (if \<not> tombstone r \<and> test (cell r i) then
        (if keyed \<and> list_ex (\<lambda>old. \<not> tombstone old \<and> cell old j = v) (seen @ rest)
         then (Inl ConstraintViolation, seen @ r # rest)
         else update_scan i j test v keyed (seen @ [r[j := v]]) rest)
      else update_scan i j test v keyed (seen @ [r]) rest)"

definition update_rows :: "table \<Rightarrow> val \<Rightarrow> string \<Rightarrow> cond \<Rightarrow> (error + unit) \<times> table" where
  "update_rows t v c cnd =
     (case index_of (column_names t) c of
        None \<Rightarrow> (Inl (NoSuchColumn c), t)
      | Some j \<Rightarrow>
          (case index_of (column_names t) (fst cnd) of
             None \<Rightarrow> (Inl (NoSuchColumn (fst cnd)), t)
           | Some i \<Rightarrow>
               (case update_scan i j (snd cnd) v (c \<in> set (key_columns t)) [] (data t) of
                  (res, rows) \<Rightarrow> (res, t\<lparr>data := rows\<rparr>))))"

text \<open>
  Modelled from the spec: \<^verbatim>\<open>Table._cast_column(column, type)\<close>: converts every
  non-empty value of the column and records the new column type; if one value does not
  convert, nothing is converted.
\<close>

fun cast_cells :: "coerce \<Rightarrow> string \<Rightarrow> nat \<Rightarrow> row list \<Rightarrow> row list option" where
  "cast_cells cv ty i [] = Some []"
| "cast_cells cv ty i (r # rest) =
     (if cell r i = VNone then map_option ((#) r) (cast_cells cv ty i rest)
      else case cv ty (cell r i) of
        None \<Rightarrow> None
      | Some v \<Rightarrow> map_option ((#) (r[i := v])) (cast_cells cv ty i rest))"

definition cast_column :: "coerce \<Rightarrow> table \<Rightarrow> string \<Rightarrow> string \<Rightarrow> error + table" where
  "cast_column cv t c ty =
     (case index_of (column_names t) c of
        None \<Rightarrow> Inl (NoSuchColumn c)
      | Some i \<Rightarrow>
          (case cast_cells cv ty i (data t) of
             None \<Rightarrow> Inl SchemaMismatch
           | Some rows \<Rightarrow> Inr (t\<lparr>column_types := (column_types t)[i := ty], data := rows\<rparr>)))"

text \<open>
  Modelled from the spec: the \<^verbatim>\<open>Table\<close> constructor: a table is created empty;
  \<^verbatim>\<open>pk_idx\<close> is the position of the primary-key column.
\<close>

definition new_table ::
  "string \<Rightarrow> string list \<Rightarrow> string list \<Rightarrow> string option \<Rightarrow> string list option \<Rightarrow> error + table" where
  "new_table name cols tys key uniq =
     (case key of
        None \<Rightarrow> Inr \<lparr>t_name = name, column_names = cols, column_types = tys, pk = None,
                     pk_idx = None, unique_columns = uniq, data = []\<rparr>
      | Some k \<Rightarrow>
          (case index_of cols k of
             None \<Rightarrow> Inl (NoSuchColumn k)
           | Some i \<Rightarrow> Inr \<lparr>t_name = name, column_names = cols, column_types = tys, pk = Some k,
                            pk_idx = Some i, unique_columns = uniq, data = []\<rparr>))"

subsection \<open>Python string helpers\<close>

text \<open>\<^verbatim>\<open>s.split(c)\<close> for a one-character separator; the result is never empty.\<close>

fun split_on :: "char \<Rightarrow> string \<Rightarrow> string list" where
  "split_on c [] = [[]]"
| "split_on c (x # xs) =
     (if x = c then [] # split_on c xs
      else case split_on c xs of
        [] \<Rightarrow> [[x]]
      | w # ws \<Rightarrow> (x # w) # ws)"

text \<open>
  \<^verbatim>\<open>s.strip()\<close>, a character being a code point below 256: the white space among
  them is what \<^verbatim>\<open>str.isspace\<close> accepts there.
\<close>

definition is_space :: "char \<Rightarrow> bool" where
  "is_space c = (c \<in> set [CHR '' '', CHR 0x09, CHR 0x0A, CHR 0x0B, CHR 0x0C, CHR 0x0D,
                           CHR 0x1C, CHR 0x1D, CHR 0x1E, CHR 0x1F, CHR 0x85, CHR 0xA0])"

definition strip :: "string \<Rightarrow> string" where
  "strip s = rev (dropWhile is_space (rev (dropWhile is_space s)))"

text \<open>Python's truth value of a stored value, as \<^verbatim>\<open>any(row)\<close> reads it.\<close>

fun truthy :: "val \<Rightarrow> bool" where
  "truthy VNone = False"
| "truthy (VInt i) = (i \<noteq> 0)"
| "truthy (VStr x) = (x \<noteq> [])"
| "truthy (VList l) = (l \<noteq> [])"

section \<open>The database: tables in memory and on disk\<close>

text \<open>
  Modelled from the spec: the B-tree and the extendible-hash index (\<^verbatim>\<open>btree.py\<close> and
  \<^verbatim>\<open>extendible_hashing.py\<close> are not among the sources): insert-only structures
  mapping a column's values to row positions, with a lookup of the positions recorded
  for a key. The model keeps the inserted (key, position) pairs.
\<close>

datatype index = BtreeIndex "(val \<times> nat) list" | HashIndex "(val \<times> nat) list"

fun entries :: "index \<Rightarrow> (val \<times> nat) list" where
  "entries (BtreeIndex es) = es"
| "entries (HashIndex es) = es"

fun index_add :: "val \<Rightarrow> nat \<Rightarrow> index \<Rightarrow> index" where
  "index_add k p (BtreeIndex es) = BtreeIndex (es @ [(k, p)])"
| "index_add k p (HashIndex es) = HashIndex (es @ [(k, p)])"

definition index_lookup :: "index \<Rightarrow> val \<Rightarrow> nat list" where
  "index_lookup ix k = map snd (filter (\<lambda>e. fst e = k) (entries ix))"

text \<open>
  \<^verbatim>\<open>self.tables\<close> is a Python dict (insertion-ordered, which the loops over
  \<^verbatim>\<open>self.tables.values()\<close> observe), so it is an association list updated with
  \<open>AList.update\<close>. \<open>disk\<close> is the directory of pickled tables, one entry per
  \<^verbatim>\<open>name.pkl\<close>, keyed by the table's name; \<open>index_files\<close> the pickled indexes,
  keyed by the index's name. The statistics kept beside them are not modelled.
\<close>

record db =
  tables :: "(string \<times> table) list"
  disk :: "(string \<times> table) list"
  index_files :: "(string \<times> index) list"

text \<open>
  An operation of the database: it returns a value or raises, and leaves a state either
  way (what was written before a \<^verbatim>\<open>raise\<close> stays written).
\<close>

type_synonym 'a action = "db \<Rightarrow> (error + 'a) \<times> db"

definition ret :: "'a \<Rightarrow> 'a action" where
  "ret a s = (Inr a, s)"

definition raise :: "error \<Rightarrow> 'a action" where
  "raise e s = (Inl e, s)"

definition then_do :: "'a action \<Rightarrow> ('a \<Rightarrow> 'b action) \<Rightarrow> 'b action" where
  "then_do m f s = (case m s of (Inl e, s') \<Rightarrow> (Inl e, s') | (Inr a, s') \<Rightarrow> f a s')"

text \<open>\<^verbatim>\<open>try: m except Exception as e: h(e)\<close>.\<close>

definition catch :: "'a action \<Rightarrow> (error \<Rightarrow> 'a action) \<Rightarrow> 'a action" where
  "catch m h s = (case m s of (Inl e, s') \<Rightarrow> h e s' | (Inr a, s') \<Rightarrow> (Inr a, s'))"

definition lift :: "(db \<Rightarrow> db) \<Rightarrow> unit action" where
  "lift f s = (Inr (), f s)"

definition has_table :: "db \<Rightarrow> string \<Rightarrow> bool" where
  "has_table s n = (map_of (tables s) n \<noteq> None)"

definition put_table :: "string \<Rightarrow> table \<Rightarrow> db \<Rightarrow> db" where
  "put_table n t s = s\<lparr>tables := AList.update n t (tables s)\<rparr>"

text \<open>\<^verbatim>\<open>self.tables[n]\<close>, and a method call on that Table object that may mutate it.\<close>

definition get_table :: "string \<Rightarrow> table action" where
  "get_table n s = (case map_of (tables s) n of None \<Rightarrow> (Inl (KeyError n), s) | Some t \<Rightarrow> (Inr t, s))"

definition on_table :: "string \<Rightarrow> (table \<Rightarrow> (error + 'a) \<times> table) \<Rightarrow> 'a action" where
  "on_table n f s =
     (case map_of (tables s) n of
        None \<Rightarrow> (Inl (KeyError n), s)
      | Some t \<Rightarrow> (case f t of (res, t') \<Rightarrow> (res, put_table n t' s)))"

definition atomic :: "(table \<Rightarrow> error + table) \<Rightarrow> table \<Rightarrow> (error + unit) \<times> table" where
  "atomic f t = (case f t of Inl e \<Rightarrow> (Inl e, t) | Inr t' \<Rightarrow> (Inr (), t'))"

text \<open>
  A dict has one binding per key: the binding of \<open>k\<close> in the list is \<open>map_of al k\<close>,
  and an iteration visits each key once.
\<close>

definition dict_keys :: "('k \<times> 'v) list \<Rightarrow> 'k list" where
  "dict_keys al = remdups (map fst al)"

definition dict_values :: "('k \<times> 'v) list \<Rightarrow> 'v list" where
  "dict_values al = List.map_filter (map_of al) (dict_keys al)"

text \<open>
  \<^verbatim>\<open>save_database\<close> writes every table of \<^verbatim>\<open>self.tables\<close> to the file
  \<^verbatim>\<open>name.pkl\<close> of its key.
\<close>

definition write_all :: "('k \<times> 'v) list \<Rightarrow> ('k \<times> 'v) list \<Rightarrow> ('k \<times> 'v) list" where
  "write_all src dst =
     fold (\<lambda>k d. case map_of src k of None \<Rightarrow> d | Some v \<Rightarrow> AList.update k v d)
       (dict_keys src) dst"

definition save_database :: "db \<Rightarrow> db" where
  "save_database s = s\<lparr>disk := write_all (tables s) (disk s)\<rparr>"

text \<open>
  \<^verbatim>\<open>load_database\<close> reads every file \<^verbatim>\<open>name.pkl\<close> of the directory (each ends in
  \<^verbatim>\<open>pkl\<close>) into \<^verbatim>\<open>self.tables\<close> under the key \<^verbatim>\<open>file.split(".")[0]\<close>: the
  text of the file name before its first dot, which is the table's name only when that
  name has no dot.
\<close>

definition file_stem :: "string \<Rightarrow> string" where
  "file_stem name = (case split_on CHR ''.'' (name @ ''.pkl'') of [] \<Rightarrow> [] | w # _ \<Rightarrow> w)"

definition read_all :: "(string \<times> 'v) list \<Rightarrow> (string \<times> 'v) list \<Rightarrow> (string \<times> 'v) list" where
  "read_all files dst =
     fold (\<lambda>k d. case map_of files k of None \<Rightarrow> d | Some v \<Rightarrow> AList.update (file_stem k) v d)
       (dict_keys files) dst"

definition load_database :: "db \<Rightarrow> db" where
  "load_database s = s\<lparr>tables := read_all (disk s) (tables s)\<rparr>"

definition save_locks :: "db \<Rightarrow> error + db" where
  "save_locks s =
     (case map_of (tables s) ''meta_locks'' of
        None \<Rightarrow> Inl (KeyError ''meta_locks'')
      | Some ml \<Rightarrow> Inr (s\<lparr>disk := AList.update ''meta_locks'' ml (disk s)\<rparr>))"

section \<open>The lock manager\<close>

text \<open>
  \<^verbatim>\<open>self.tables['meta_locks']._select_where('pid', f'table_name={table_name}').data[0][0]\<close>:
  the pid of the first lock record of the table; \<open>Inr None\<close> is the \<^verbatim>\<open>IndexError\<close>
  of an empty result, which all three callers catch.
\<close>

definition lock_owner :: "table \<Rightarrow> string \<Rightarrow> error + val option" where
  "lock_owner ml table_name =
     (case select_where ml (Some [''pid'']) (eq_cond ''table_name'' (VStr table_name)) of
        Inl e \<Rightarrow> Inl e
      | Inr [] \<Rightarrow> Inr None
      | Inr (r # _) \<Rightarrow> (case r of [] \<Rightarrow> Inr None | p # _ \<Rightarrow> Inr (Some p)))"

text \<open>
  \<^verbatim>\<open>Database.lock_table(table_name, mode)\<close> run by process \<open>me\<close>
  (\<^verbatim>\<open>os.getpid()\<close>), for a table given by name. The result
  \<open>None\<close>, \<open>Some False\<close>, \<open>Some True\<close> is Python's \<^verbatim>\<open>None\<close>, \<^verbatim>\<open>False\<close>, \<^verbatim>\<open>True\<close>.
  The state is returned in every case, since the reload of \<^verbatim>\<open>meta_locks\<close> happens
  before the checks.
\<close>

definition lock_table :: "coerce \<Rightarrow> int \<Rightarrow> string \<Rightarrow> string \<Rightarrow> db \<Rightarrow> (error + bool option) \<times> db" where
  "lock_table cv me table_name mode s =
     (if take 4 table_name = ''meta'' \<or> \<not> has_table s table_name then (Inr None, s)
      else case map_of (disk s) ''meta_locks'' of
        None \<Rightarrow> (Inl (FileNotFoundError ''meta_locks''), s)
      | Some ml \<Rightarrow>
          (let s1 = put_table ''meta_locks'' ml s in
           case lock_owner ml table_name of
             Inl e \<Rightarrow> (Inl e, s1)
           | Inr (Some p) \<Rightarrow>
               if p \<noteq> VInt me then (Inl (Locked p), s1) else (Inr (Some False), s1)
           | Inr None \<Rightarrow>
               if mode = ''x'' then
                 (case insert_row cv ml [VStr table_name, VInt me, VStr mode] [] of
                    Inl e \<Rightarrow> (Inl e, s1)
                  | Inr ml' \<Rightarrow>
                      (case save_locks (put_table ''meta_locks'' ml' s1) of
                         Inl e \<Rightarrow> (Inl e, put_table ''meta_locks'' ml' s1)
                       | Inr s2 \<Rightarrow> (Inr (Some True), s2)))
               else (Inl NotImplementedError, s1)))"

text \<open>
  \<^verbatim>\<open>Database.unlock_table(table_name, force)\<close> run by process \<open>me\<close>; its last two
  statements (delete the table's records, save the lock table) are
  \<open>remove_lock_records\<close>.
\<close>

definition remove_lock_records :: "string \<Rightarrow> table \<Rightarrow> db \<Rightarrow> (error + unit) \<times> db" where
  "remove_lock_records table_name ml s =
     (case delete_where ml (eq_cond ''table_name'' (VStr table_name)) of
        Inl e \<Rightarrow> (Inl e, s)
      | Inr (ml', _) \<Rightarrow>
          (case save_locks (put_table ''meta_locks'' ml' s) of
             Inl e \<Rightarrow> (Inl e, put_table ''meta_locks'' ml' s)
           | Inr s2 \<Rightarrow> (Inr (), s2)))"

definition unlock_table :: "int \<Rightarrow> string \<Rightarrow> bool \<Rightarrow> db \<Rightarrow> (error + unit) \<times> db" where
  "unlock_table me table_name force s =
     (if \<not> has_table s table_name then (Inl (NotInDatabase table_name), s)
      else case map_of (tables s) ''meta_locks'' of
        None \<Rightarrow> (Inl (KeyError ''meta_locks''), s)
      | Some ml \<Rightarrow>
          if force then remove_lock_records table_name ml s
          else
            (case lock_owner ml table_name of
               Inl e \<Rightarrow> (Inl e, s)
             | Inr (Some p) \<Rightarrow>
                 if p \<noteq> VInt me then (Inl (Locked p), s)
                 else remove_lock_records table_name ml s
             | Inr None \<Rightarrow> remove_lock_records table_name ml s))"

text \<open>
  \<^verbatim>\<open>Database.is_locked(table_name)\<close> for a table given by name, run by process \<open>me\<close>.
  The only \<^verbatim>\<open>return\<close> statements of the source return \<^verbatim>\<open>False\<close>; a record of another
  process raises.
\<close>

definition is_locked :: "int \<Rightarrow> string \<Rightarrow> db \<Rightarrow> (error + bool) \<times> db" where
  "is_locked me table_name s =
     (if take 4 table_name = ''meta'' then (Inr False, s)
      else case map_of (disk s) ''meta_locks'' of
        None \<Rightarrow> (Inl (FileNotFoundError ''meta_locks''), s)
      | Some ml \<Rightarrow>
          (let s1 = put_table ''meta_locks'' ml s in
           case lock_owner ml table_name of
             Inl e \<Rightarrow> (Inl e, s1)
           | Inr (Some p) \<Rightarrow> if p \<noteq> VInt me then (Inl (Locked p), s1) else (Inr False, s1)
           | Inr None \<Rightarrow> (Inr False, s1)))"

section \<open>The meta tables\<close>

text \<open>
  \<^verbatim>\<open>_update_meta_length\<close>: one step of the loop over \<^verbatim>\<open>self.tables.values()\<close>, and
  the loop. Meta tables are skipped, so the tables the loop reads are not the one it
  writes.
\<close>

definition meta_length_step :: "coerce \<Rightarrow> table \<Rightarrow> unit action" where
  "meta_length_step cv t =
     then_do (get_table ''meta_length'') (\<lambda>ml.
       case column_by_name ml ''table_name'' of
         Inl e \<Rightarrow> raise e
       | Inr names \<Rightarrow>
           then_do (if VStr (t_name t) \<notin> set names
                    then on_table ''meta_length''
                           (atomic (\<lambda>m. insert_row cv m [VStr (t_name t), VInt 0] []))
                    else ret ()) (\<lambda>_.
             on_table ''meta_length''
               (\<lambda>m. update_rows m (VInt (int (length (filter (list_ex truthy) (data t)))))
                      ''no_of_rows'' (eq_cond ''table_name'' (VStr (t_name t))))))"

fun update_meta_length_loop :: "coerce \<Rightarrow> table list \<Rightarrow> unit action" where
  "update_meta_length_loop cv [] s = (Inr (), s)"
| "update_meta_length_loop cv (t # ts) s =
     (if take 4 (t_name t) = ''meta'' then update_meta_length_loop cv ts s
      else case meta_length_step cv t s of
        (Inl e, s') \<Rightarrow> (Inl e, s')
      | (Inr _, s') \<Rightarrow> update_meta_length_loop cv ts s')"

definition update_meta_length :: "coerce \<Rightarrow> unit action" where
  "update_meta_length cv s = update_meta_length_loop cv (dict_values (tables s)) s"

text \<open>\<^verbatim>\<open>_update_meta_insert_stack\<close>.\<close>

definition meta_insert_stack_step :: "coerce \<Rightarrow> table \<Rightarrow> unit action" where
  "meta_insert_stack_step cv t =
     then_do (get_table ''meta_insert_stack'') (\<lambda>mis.
       case column_by_name mis ''table_name'' of
         Inl e \<Rightarrow> raise e
       | Inr names \<Rightarrow>
           if VStr (t_name t) \<notin> set names
           then on_table ''meta_insert_stack''
                  (atomic (\<lambda>m. insert_row cv m [VStr (t_name t), VList []] []))
           else ret ())"

fun update_meta_insert_stack_loop :: "coerce \<Rightarrow> table list \<Rightarrow> unit action" where
  "update_meta_insert_stack_loop cv [] s = (Inr (), s)"
| "update_meta_insert_stack_loop cv (t # ts) s =
     (if take 4 (t_name t) = ''meta'' then update_meta_insert_stack_loop cv ts s
      else case meta_insert_stack_step cv t s of
        (Inl e, s') \<Rightarrow> (Inl e, s')
      | (Inr _, s') \<Rightarrow> update_meta_insert_stack_loop cv ts s')"

definition update_meta_insert_stack :: "coerce \<Rightarrow> unit action" where
  "update_meta_insert_stack cv s = update_meta_insert_stack_loop cv (dict_values (tables s)) s"

text \<open>\<^verbatim>\<open>_update\<close>: update all meta tables.\<close>

definition update_meta :: "coerce \<Rightarrow> unit action" where
  "update_meta cv = then_do (update_meta_length cv) (\<lambda>_. update_meta_insert_stack cv)"

text \<open>
  \<^verbatim>\<open>_get_insert_stack_for_table\<close>: the \<^verbatim>\<open>indexes\<close> value of the first record of the
  table in \<^verbatim>\<open>meta_insert_stack\<close>; \<^verbatim>\<open>[0]\<close> on an empty column raises.
\<close>

definition get_insert_stack_for_table :: "string \<Rightarrow> val action" where
  "get_insert_stack_for_table table_name =
     then_do (get_table ''meta_insert_stack'') (\<lambda>mis.
       case select_where mis None (eq_cond ''table_name'' (VStr table_name)) of
         Inl e \<Rightarrow> raise e
       | Inr rows \<Rightarrow>
           (case index_of (column_names mis) ''indexes'' of
              None \<Rightarrow> raise (NoSuchColumn ''indexes'')
            | Some i \<Rightarrow> (case rows of [] \<Rightarrow> raise IndexError | r # _ \<Rightarrow> ret (cell r i))))"

text \<open>\<^verbatim>\<open>_update_meta_insert_stack_for_tb\<close> and \<^verbatim>\<open>_add_to_insert_stack\<close>.\<close>

definition update_meta_insert_stack_for_tb :: "string \<Rightarrow> val \<Rightarrow> unit action" where
  "update_meta_insert_stack_for_tb table_name new_stack =
     on_table ''meta_insert_stack''
       (\<lambda>m. update_rows m new_stack ''indexes'' (eq_cond ''table_name'' (VStr table_name)))"

definition add_to_insert_stack :: "string \<Rightarrow> nat list \<Rightarrow> unit action" where
  "add_to_insert_stack table_name indexes =
     then_do (get_insert_stack_for_table table_name) (\<lambda>old_lst.
       case old_lst of
         VList l \<Rightarrow> update_meta_insert_stack_for_tb table_name (VList (l @ indexes))
       | _ \<Rightarrow> raise TypeError)"

section \<open>The table functions\<close>

text \<open>\<^verbatim>\<open>if lock_ownership: self.unlock_table(table_name)\<close>.\<close>

definition release_if :: "int \<Rightarrow> string \<Rightarrow> bool option \<Rightarrow> unit action" where
  "release_if me table_name lock_ownership =
     (if lock_ownership = Some True then unlock_table me table_name False else ret ())"

text \<open>\<^verbatim>\<open>Database.create_table\<close> (the statistics are outside the model).\<close>

definition create_table ::
  "coerce \<Rightarrow> string \<Rightarrow> string \<Rightarrow> string \<Rightarrow> string option \<Rightarrow> string option \<Rightarrow> unit action" where
  "create_table cv name col_names col_types primary_key uniq =
     (case new_table name (split_on CHR '','' col_names) (split_on CHR '','' col_types)
             primary_key (map_option (split_on CHR '','') uniq) of
        Inl e \<Rightarrow> raise e
      | Inr t \<Rightarrow>
          then_do (lift (put_table name t)) (\<lambda>_.
          then_do (update_meta cv) (\<lambda>_.
          lift save_database)))"

text \<open>
  \<^verbatim>\<open>Database.cast(column_name, table_name, cast_type)\<close>. In
  \<^verbatim>\<open>self.tables[table_name]._cast_column(column_name, eval(cast_type))\<close> the table is
  looked up first, then \<^verbatim>\<open>eval(cast_type)\<close> runs once, before the call; \<open>bound\<close>
  tells for which texts \<^verbatim>\<open>eval\<close> returns, and it raises for the others
  (\<^verbatim>\<open>NameError\<close> for an unbound name).
\<close>

definition cast ::
  "coerce \<Rightarrow> (string \<Rightarrow> bool) \<Rightarrow> int \<Rightarrow> string \<Rightarrow> string \<Rightarrow> string \<Rightarrow> unit action" where
  "cast cv bound me column_name table_name cast_type =
     then_do (lift load_database) (\<lambda>_.
     then_do (lock_table cv me table_name ''x'') (\<lambda>lock_ownership.
     then_do (get_table table_name) (\<lambda>_.
     then_do (if bound cast_type then ret () else raise NameError) (\<lambda>_.
     then_do (on_table table_name (atomic (\<lambda>t. cast_column cv t column_name cast_type))) (\<lambda>_.
     then_do (release_if me table_name lock_ownership) (\<lambda>_.
     then_do (update_meta cv) (\<lambda>_.
     lift save_database)))))))"

text \<open>
  \<^verbatim>\<open>Database.insert_into(table_name, row_str)\<close>. The \<^verbatim>\<open>try\<close> block is the call of
  \<^verbatim>\<open>_insert\<close>, which reads the stack as a list.
\<close>

definition insert_into :: "coerce \<Rightarrow> int \<Rightarrow> string \<Rightarrow> string \<Rightarrow> unit action" where
  "insert_into cv me table_name row_str =
     (let row = map VStr (split_on CHR '','' (strip row_str)) in
      then_do (lift load_database) (\<lambda>_.
      then_do (lock_table cv me table_name ''x'') (\<lambda>lock_ownership.
      then_do (get_insert_stack_for_table table_name) (\<lambda>insert_stack.
      then_do (catch
                 (case insert_stack of
                    VList st \<Rightarrow>
                      then_do (on_table table_name (atomic (\<lambda>t. insert_row cv t row st)))
                        (\<lambda>_. ret st)
                  | _ \<Rightarrow> raise TypeError)
                 (\<lambda>e. then_do (release_if me table_name lock_ownership) (\<lambda>_. raise e))) (\<lambda>st.
      then_do (update_meta_insert_stack_for_tb table_name (VList (butlast st))) (\<lambda>_.
      then_do (release_if me table_name lock_ownership) (\<lambda>_.
      then_do (update_meta cv) (\<lambda>_.
      lift save_database))))))))"

text \<open>
  \<^verbatim>\<open>Database.update(table_name, set_args, condition)\<close>; the tuple assignment needs
  exactly two parts.
\<close>

definition update :: "coerce \<Rightarrow> int \<Rightarrow> string \<Rightarrow> string \<Rightarrow> cond \<Rightarrow> unit action" where
  "update cv me table_name set_args condition =
     (case split_on CHR ''='' (filter (\<lambda>c. c \<noteq> CHR '' '') set_args) of
        [set_column, set_value] \<Rightarrow>
          then_do (lift load_database) (\<lambda>_.
          then_do (lock_table cv me table_name ''x'') (\<lambda>lock_ownership.
          then_do (on_table table_name
                     (\<lambda>t. update_rows t (VStr set_value) set_column condition)) (\<lambda>_.
          then_do (release_if me table_name lock_ownership) (\<lambda>_.
          then_do (update_meta cv) (\<lambda>_.
          lift save_database)))))
      | _ \<Rightarrow> raise ValueError)"

text \<open>\<^verbatim>\<open>Database.delete_from(table_name, condition)\<close>.\<close>

definition delete_from :: "coerce \<Rightarrow> int \<Rightarrow> string \<Rightarrow> cond \<Rightarrow> unit action" where
  "delete_from cv me table_name condition =
     then_do (lift load_database) (\<lambda>_.
     then_do (lock_table cv me table_name ''x'') (\<lambda>lock_ownership.
     then_do (on_table table_name
                (\<lambda>t. case delete_where t condition of
                        Inl e \<Rightarrow> (Inl e, t)
                      | Inr (t', dead) \<Rightarrow> (Inr dead, t'))) (\<lambda>deleted.
     then_do (release_if me table_name lock_ownership) (\<lambda>_.
     then_do (update_meta cv) (\<lambda>_.
     then_do (lift save_database) (\<lambda>_.
     then_do (if take 4 table_name \<noteq> ''meta''
              then add_to_insert_stack table_name deleted else ret ()) (\<lambda>_.
     lift save_database)))))))"

text \<open>
  \<^verbatim>\<open>Database.sort(table_name, column_name, asc)\<close>. The reordering done by
  \<^verbatim>\<open>Table._sort\<close> is the parameter \<open>srt\<close>.
\<close>

definition sort_table ::
  "(table \<Rightarrow> string \<Rightarrow> bool \<Rightarrow> error + table) \<Rightarrow> coerce \<Rightarrow> int \<Rightarrow> string \<Rightarrow> string \<Rightarrow> bool \<Rightarrow> unit action" where
  "sort_table srt cv me table_name column_name asc =
     then_do (lift load_database) (\<lambda>_.
     then_do (lock_table cv me table_name ''x'') (\<lambda>lock_ownership.
     then_do (on_table table_name (atomic (\<lambda>t. srt t column_name asc))) (\<lambda>_.
     then_do (release_if me table_name lock_ownership) (\<lambda>_.
     then_do (update_meta cv) (\<lambda>_.
     lift save_database)))))"

section \<open>Indexes\<close>

text \<open>\<^verbatim>\<open>_has_index(table_name)\<close> with no column given: has the table any index.\<close>

definition has_index :: "string \<Rightarrow> bool action" where
  "has_index table_name =
     then_do (get_table ''meta_indexes'') (\<lambda>mi.
       case column_by_name mi ''table_name'' of
         Inl e \<Rightarrow> raise e
       | Inr names \<Rightarrow> ret (VStr table_name \<in> set names))"

text \<open>
  \<^verbatim>\<open>[table_name, column_name] in [[row[0], row[1]] for row in rows]\<close>, and the
  \<^verbatim>\<open>row[2]\<close> of the first such row (the loop with \<^verbatim>\<open>break\<close> in \<^verbatim>\<open>join\<close>).
\<close>

definition indexed_on :: "string \<Rightarrow> string \<Rightarrow> row list \<Rightarrow> bool" where
  "indexed_on table_name column_name rows =
     list_ex (\<lambda>r. cell r 0 = VStr table_name \<and> cell r 1 = VStr column_name) rows"

definition index_name_for :: "string \<Rightarrow> string \<Rightarrow> row list \<Rightarrow> val option" where
  "index_name_for table_name column_name rows =
     (case filter (\<lambda>r. cell r 0 = VStr table_name \<and> cell r 1 = VStr column_name) rows of
        [] \<Rightarrow> None
      | r # _ \<Rightarrow> Some (cell r 2))"

text \<open>\<^verbatim>\<open>_save_index\<close> and \<^verbatim>\<open>_load_idx\<close>: the index files, by index name.\<close>

definition save_index :: "string \<Rightarrow> index \<Rightarrow> unit action" where
  "save_index index_name ix =
     lift (\<lambda>s. s\<lparr>index_files := AList.update index_name ix (index_files s)\<rparr>)"

definition load_idx :: "val \<Rightarrow> index action" where
  "load_idx index_name s =
     (case index_name of
        VStr nm \<Rightarrow>
          (case map_of (index_files s) nm of
             None \<Rightarrow> (Inl (FileNotFoundError nm), s)
           | Some ix \<Rightarrow> (Inr ix, s))
      | _ \<Rightarrow> (Inl (FileNotFoundError []), s))"

text \<open>
  \<^verbatim>\<open>_construct_index\<close>: the loop over \<^verbatim>\<open>enumerate(column_by_name(column_name))\<close>
  with its \<^verbatim>\<open>continue\<close> on a \<^verbatim>\<open>None\<close> key, then the save.
\<close>

fun build_index :: "index \<Rightarrow> (nat \<times> val) list \<Rightarrow> index" where
  "build_index ix [] = ix"
| "build_index ix ((idx, key) # rest) =
     (if key = VNone then build_index ix rest
      else build_index (index_add key idx ix) rest)"

definition construct_index :: "string \<Rightarrow> string \<Rightarrow> string \<Rightarrow> string \<Rightarrow> unit action" where
  "construct_index table_name column_name index_name index_type =
     then_do (get_table table_name) (\<lambda>t.
       case column_by_name t column_name of
         Inl e \<Rightarrow> raise e
       | Inr keys \<Rightarrow>
           save_index index_name
             (build_index (if index_type = ''btree'' then BtreeIndex [] else HashIndex [])
                (enumerate 0 keys)))"

text \<open>
  \<^verbatim>\<open>Database.create_index(index_name, on_clause, index_type)\<close>. The test
  \<^verbatim>\<open>column_name not in unique_columns\<close> is evaluated only when the column is not the
  primary key, and raises \<^verbatim>\<open>TypeError\<close> when \<^verbatim>\<open>unique_columns\<close> is \<^verbatim>\<open>None\<close>.
\<close>

definition not_key_column :: "table \<Rightarrow> string \<Rightarrow> error + bool" where
  "not_key_column t column_name =
     (if Some column_name \<noteq> pk t then
        (case unique_columns t of
           None \<Rightarrow> Inl TypeError
         | Some us \<Rightarrow> Inr (column_name \<notin> set us))
      else Inr False)"

definition create_index :: "coerce \<Rightarrow> string \<Rightarrow> string \<Rightarrow> string \<Rightarrow> string \<Rightarrow> unit action" where
  "create_index cv index_name table_name column_name index_type s =
     (case map_of (tables s) table_name of
        None \<Rightarrow> (Inl (TableDoesNotExist table_name), s)
      | Some t \<Rightarrow>
          if index_type \<notin> set [''btree'', ''hash''] then (Inl (IndexTypeNotSupported index_type), s)
          else if pk_idx t = None \<and> unique_columns t = None then (Inl NoKeyOrUniqueColumn, s)
          else
            (case not_key_column t column_name of
               Inl e \<Rightarrow> (Inl e, s)
             | Inr True \<Rightarrow> (Inl NotKeyOrUniqueColumn, s)
             | Inr False \<Rightarrow>
                 then_do (get_table ''meta_indexes'') (\<lambda>mi.
                   case column_by_name mi ''index_name'' of
                     Inl e \<Rightarrow> raise e
                   | Inr names \<Rightarrow>
                       if VStr index_name \<in> set names then raise IndexNameExists
                       else if indexed_on table_name column_name (data mi)
                       then raise ColumnAlreadyIndexed
                       else
                         then_do (on_table ''meta_indexes''
                                    (atomic (\<lambda>m. insert_row cv m
                                       [VStr table_name, VStr column_name, VStr index_name,
                                        VStr index_type] []))) (\<lambda>_.
                         then_do (construct_index table_name column_name index_name index_type) (\<lambda>_.
                         lift save_database))) s))"

text \<open>\<^verbatim>\<open>Database.drop_index(index_name)\<close>; the name is a value read from \<^verbatim>\<open>meta_indexes\<close>.\<close>

definition remove_index_file :: "val \<Rightarrow> db \<Rightarrow> db" where
  "remove_index_file index_name s =
     (case index_name of
        VStr nm \<Rightarrow> s\<lparr>index_files := AList.delete nm (index_files s)\<rparr>
      | _ \<Rightarrow> s)"

definition drop_index :: "coerce \<Rightarrow> int \<Rightarrow> val \<Rightarrow> unit action" where
  "drop_index cv me index_name =
     then_do (get_table ''meta_indexes'') (\<lambda>mi.
       case column_by_name mi ''index_name'' of
         Inl e \<Rightarrow> raise e
       | Inr names \<Rightarrow>
           if index_name \<in> set names then
             then_do (delete_from cv me ''meta_indexes'' (eq_cond ''index_name'' index_name)) (\<lambda>_.
             then_do (lift (remove_index_file index_name)) (\<lambda>_.
             lift save_database))
           else ret ())"

section \<open>Dropping a table\<close>

text \<open>
  The loop \<^verbatim>\<open>for i in reversed(to_be_deleted): self.drop_index(meta_indexes.data[i][2])\<close>
  of \<^verbatim>\<open>drop_table\<close>.
\<close>

fun drop_indexes_loop :: "coerce \<Rightarrow> int \<Rightarrow> nat list \<Rightarrow> unit action" where
  "drop_indexes_loop cv me [] s = (Inr (), s)"
| "drop_indexes_loop cv me (i # rest) s =
     (case map_of (tables s) ''meta_indexes'' of
        None \<Rightarrow> (Inl (KeyError ''meta_indexes''), s)
      | Some mi \<Rightarrow>
          if i < length (data mi) then
            (case drop_index cv me (cell (data mi ! i) 2) s of
               (Inl e, s') \<Rightarrow> (Inl e, s')
             | (Inr _, s') \<Rightarrow> drop_indexes_loop cv me rest s')
          else (Inl IndexError, s))"

definition pop_table :: "string \<Rightarrow> unit action" where
  "pop_table table_name s =
     (if has_table s table_name
      then (Inr (), s\<lparr>tables := AList.delete table_name (tables s),
                      disk := AList.delete table_name (disk s)\<rparr>)
      else (Inl (KeyError table_name), s))"

text \<open>
  \<^verbatim>\<open>Database.drop_table(table_name)\<close>: \<^verbatim>\<open>self.tables.pop\<close> and the removal of the
  table's file are \<open>pop_table\<close>.
\<close>

definition drop_table :: "coerce \<Rightarrow> int \<Rightarrow> string \<Rightarrow> unit action" where
  "drop_table cv me table_name =
     then_do (lift load_database) (\<lambda>_.
     then_do (lock_table cv me table_name ''x'') (\<lambda>_.
     then_do (pop_table table_name) (\<lambda>_.
     then_do (delete_from cv me ''meta_locks'' (eq_cond ''table_name'' (VStr table_name))) (\<lambda>_.
     then_do (delete_from cv me ''meta_length'' (eq_cond ''table_name'' (VStr table_name))) (\<lambda>_.
     then_do (delete_from cv me ''meta_insert_stack'' (eq_cond ''table_name'' (VStr table_name))) (\<lambda>_.
     then_do (has_index table_name) (\<lambda>hi.
     then_do (if hi then
                then_do (get_table ''meta_indexes'') (\<lambda>mi.
                  case column_by_name mi ''table_name'' of
                    Inl e \<Rightarrow> raise e
                  | Inr names \<Rightarrow>
                      drop_indexes_loop cv me
                        (rev (map fst (filter (\<lambda>kv. snd kv = VStr table_name)
                                         (enumerate 0 names)))))
              else ret ()) (\<lambda>_.
     lift save_database))))))))"

section \<open>Joins\<close>

text \<open>
  \<^verbatim>\<open>Database.select('*', table_name, condition)\<close> with the other arguments at their
  defaults, as \<^verbatim>\<open>join\<close> calls it. The branch that consults the table's indexes is
  the parameter \<open>hinted\<close>; \<open>None\<close> is the bare \<^verbatim>\<open>return\<close> for a locked table.
\<close>

definition select_all ::
  "(string \<Rightarrow> cond \<Rightarrow> row list action) \<Rightarrow> int \<Rightarrow> string \<Rightarrow> cond \<Rightarrow> row list option action" where
  "select_all hinted me table_name condition =
     then_do (lift load_database) (\<lambda>_.
     then_do (is_locked me table_name) (\<lambda>locked.
       if locked then ret None
       else
         then_do (has_index table_name) (\<lambda>hi.
           if hi then then_do (hinted table_name condition) (\<lambda>rows. ret (Some rows))
           else
             then_do (get_table table_name) (\<lambda>t.
               case select_where t None condition of
                 Inl e \<Rightarrow> raise e
               | Inr rows \<Rightarrow> ret (Some rows)))))"

text \<open>
  The join algorithm \<^verbatim>\<open>join\<close> hands the two tables to: the algorithms themselves
  (\<^verbatim>\<open>joins.py\<close>, \<^verbatim>\<open>table.py\<close>) are not among the sources. An index-nested-loop
  join carries the loaded index and the side it belongs to.
\<close>

datatype join_plan =
    NaiveInner | NaiveLeft | NaiveRight | NaiveFull
  | IndexNestedLoop index string
  | SortMerge

text \<open>The rows of \<^verbatim>\<open>meta_indexes\<close> for one table, read through \<^verbatim>\<open>select\<close>.\<close>

definition table_indexes ::
  "(string \<Rightarrow> cond \<Rightarrow> row list action) \<Rightarrow> int \<Rightarrow> string \<Rightarrow> row list action" where
  "table_indexes hinted me table_name =
     then_do (select_all hinted me ''meta_indexes'' (eq_cond ''table_name'' (VStr table_name)))
       (\<lambda>res. case res of None \<Rightarrow> raise AttributeError | Some rows \<Rightarrow> ret rows)"

text \<open>
  The branch \<^verbatim>\<open>mode=='inl'\<close> of \<^verbatim>\<open>join\<close>. When neither \<^verbatim>\<open>column_exist_r\<close> nor
  \<^verbatim>\<open>column_exist_l\<close> holds, \<^verbatim>\<open>res\<close> is never assigned and its first use raises
  \<^verbatim>\<open>UnboundLocalError\<close>.
\<close>

definition inl_join ::
  "(string \<Rightarrow> cond \<Rightarrow> row list action) \<Rightarrow> int \<Rightarrow> table \<Rightarrow> table \<Rightarrow> string \<Rightarrow> join_plan action" where
  "inl_join hinted me left_table right_table condition =
     then_do (has_index (t_name left_table)) (\<lambda>leftIndexExists.
     then_do (has_index (t_name right_table)) (\<lambda>rightIndexExists.
       if \<not> leftIndexExists \<and> \<not> rightIndexExists then raise IndexUnavailable
       else
         (let column_name = (case split_on CHR ''='' condition of [] \<Rightarrow> [] | w # _ \<Rightarrow> w) in
          then_do (if rightIndexExists then table_indexes hinted me (t_name right_table)
                   else ret []) (\<lambda>table_indexes_r.
          then_do (if leftIndexExists then table_indexes hinted me (t_name left_table)
                   else ret []) (\<lambda>table_indexes_l.
            if rightIndexExists \<and> indexed_on (t_name right_table) column_name table_indexes_r then
              (case index_name_for (t_name right_table) column_name table_indexes_r of
                 None \<Rightarrow> raise UnboundLocalError
               | Some index_name \<Rightarrow>
                   then_do (load_idx index_name) (\<lambda>ix. ret (IndexNestedLoop ix ''right'')))
            else if leftIndexExists \<and> indexed_on (t_name left_table) column_name table_indexes_l then
              (case index_name_for (t_name left_table) column_name table_indexes_l of
                 None \<Rightarrow> raise UnboundLocalError
               | Some index_name \<Rightarrow>
                   then_do (load_idx index_name) (\<lambda>ix. ret (IndexNestedLoop ix ''left'')))
            else raise UnboundLocalError)))))"

text \<open>
  \<^verbatim>\<open>Database.join(mode, left_table, right_table, condition)\<close> for tables given by
  name, up to the choice of the algorithm; \<open>None\<close> is the bare \<^verbatim>\<open>return\<close> for a
  locked table.
\<close>

definition join ::
  "(string \<Rightarrow> cond \<Rightarrow> row list action) \<Rightarrow> int \<Rightarrow> string \<Rightarrow> string \<Rightarrow> string \<Rightarrow> string
    \<Rightarrow> join_plan option action" where
  "join hinted me mode left right condition =
     then_do (lift load_database) (\<lambda>_.
     then_do (is_locked me left) (\<lambda>l.
     then_do (if l then ret True else is_locked me right) (\<lambda>locked.
       if locked then ret None
       else
         then_do (get_table left) (\<lambda>left_table.
         then_do (get_table right) (\<lambda>right_table.
         then_do (if mode = ''inner'' then ret NaiveInner
                  else if mode = ''left'' then ret NaiveLeft
                  else if mode = ''right'' then ret NaiveRight
                  else if mode = ''full'' then ret NaiveFull
                  else if mode = ''inl''
                    then inl_join hinted me left_table right_table condition
                  else if mode = ''sm'' then ret SortMerge
                  else raise NotImplementedError) (\<lambda>res.
         ret (Some res)))))))"

section \<open>Schemas of the meta tables, and sample states\<close>

text \<open>
  The meta tables as \<^verbatim>\<open>Database.__init__\<close> creates them:
  \<^verbatim>\<open>create_table('meta_locks', 'table_name,pid,mode', 'str,int,str')\<close> and so on, with
  no primary key and no unique columns.
\<close>

definition meta_locks_table :: "row list \<Rightarrow> table" where
  "meta_locks_table rows =
     \<lparr>t_name = ''meta_locks'', column_names = [''table_name'', ''pid'', ''mode''],
      column_types = [''str'', ''int'', ''str''], pk = None, pk_idx = None,
      unique_columns = None, data = rows\<rparr>"

definition meta_length_table :: "row list \<Rightarrow> table" where
  "meta_length_table rows =
     \<lparr>t_name = ''meta_length'', column_names = [''table_name'', ''no_of_rows''],
      column_types = [''str'', ''int''], pk = None, pk_idx = None,
      unique_columns = None, data = rows\<rparr>"

definition meta_insert_stack_table :: "row list \<Rightarrow> table" where
  "meta_insert_stack_table rows =
     \<lparr>t_name = ''meta_insert_stack'', column_names = [''table_name'', ''indexes''],
      column_types = [''str'', ''list''], pk = None, pk_idx = None,
      unique_columns = None, data = rows\<rparr>"

definition meta_indexes_table :: "row list \<Rightarrow> table" where
  "meta_indexes_table rows =
     \<lparr>t_name = ''meta_indexes'',
      column_names = [''table_name'', ''indexed_column'', ''index_name'', ''index_type''],
      column_types = [''str'', ''str'', ''str'', ''str''], pk = None, pk_idx = None,
      unique_columns = None, data = rows\<rparr>"

text \<open>A table is a lock table when it has the schema of \<^verbatim>\<open>meta_locks\<close>.\<close>

definition lock_schema :: "table \<Rightarrow> bool" where
  "lock_schema ml = (\<exists>rows. ml = meta_locks_table rows)"

text \<open>
  The owner of a table's lock: the \<^verbatim>\<open>pid\<close> of the first record of \<^verbatim>\<open>meta_locks\<close>
  whose \<^verbatim>\<open>table_name\<close> is the table's; \<open>None\<close> when there is no record.
\<close>

definition owner_of :: "table \<Rightarrow> string \<Rightarrow> val option" where
  "owner_of ml table_name =
     (case filter (\<lambda>r. cell r 0 = VStr table_name) (data ml) of
        [] \<Rightarrow> None
      | r # _ \<Rightarrow> Some (cell r 1))"

text \<open>The state in which \<^verbatim>\<open>meta_locks\<close> is \<open>ml\<close> in memory and on disk.\<close>

definition with_locks :: "table \<Rightarrow> db \<Rightarrow> db" where
  "with_locks ml s = s\<lparr>tables := AList.update ''meta_locks'' ml (tables s),
                        disk := AList.update ''meta_locks'' ml (disk s)\<rparr>"

text \<open>
  What the theorems need of the conversions: a value that already has the column's
  type converts to itself, as \<^verbatim>\<open>str\<close>, \<^verbatim>\<open>int\<close> and \<^verbatim>\<open>list\<close> do.
\<close>

definition coerce_ok :: "coerce \<Rightarrow> bool" where
  "coerce_ok cv =
     ((\<forall>x. cv ''str'' (VStr x) = Some (VStr x)) \<and>
      (\<forall>i. cv ''int'' (VInt i) = Some (VInt i)) \<and>
      (\<forall>l. cv ''list'' (VList l) = Some (VList l)))"

text \<open>
  A sample conversion for the examples: \<^verbatim>\<open>int\<close> accepts integers and non-empty
  strings of decimal digits, \<^verbatim>\<open>str\<close> strings, \<^verbatim>\<open>list\<close> lists.
\<close>

definition digit_of :: "char \<Rightarrow> nat option" where
  "digit_of c = index_of ''0123456789'' c"

fun decimal :: "nat \<Rightarrow> string \<Rightarrow> nat option" where
  "decimal acc [] = Some acc"
| "decimal acc (c # cs) =
     (case digit_of c of None \<Rightarrow> None | Some d \<Rightarrow> decimal (10 * acc + d) cs)"

definition sample_coerce :: coerce where
  "sample_coerce ty v =
     (if ty = ''int'' then
        (case v of
           VInt i \<Rightarrow> Some (VInt i)
         | VStr x \<Rightarrow> (if x = [] then None else map_option (\<lambda>n. VInt (int n)) (decimal 0 x))
         | _ \<Rightarrow> None)
      else if ty = ''str'' then (case v of VStr x \<Rightarrow> Some (VStr x) | _ \<Rightarrow> None)
      else if ty = ''list'' then (case v of VList l \<Rightarrow> Some (VList l) | _ \<Rightarrow> None)
      else None)"

text \<open>The type names bound in the examples.\<close>

definition sample_bound :: "string \<Rightarrow> bool" where
  "sample_bound ty = (ty \<in> set [''int'', ''str'', ''list''])"

text \<open>
  A sample user table \<^verbatim>\<open>people(id: int primary key, name: str)\<close> and a database
  holding it: the four meta tables and \<^verbatim>\<open>people\<close>, the same in memory and on disk.
\<close>

definition people_table :: "row list \<Rightarrow> table" where
  "people_table rows =
     \<lparr>t_name = ''people'', column_names = [''id'', ''name''],
      column_types = [''int'', ''str''], pk = Some ''id'', pk_idx = Some 0,
      unique_columns = None, data = rows\<rparr>"

definition sample_tables :: "row list \<Rightarrow> nat list \<Rightarrow> row list \<Rightarrow> row list \<Rightarrow> (string \<times> table) list" where
  "sample_tables locks stack idxs rows =
     [(''meta_length'', meta_length_table [[VStr ''people'', VInt (int (length (filter (list_ex truthy) rows)))]]),
      (''meta_locks'', meta_locks_table locks),
      (''meta_insert_stack'', meta_insert_stack_table [[VStr ''people'', VList stack]]),
      (''meta_indexes'', meta_indexes_table idxs),
      (''people'', people_table rows)]"

definition sample_db :: "row list \<Rightarrow> nat list \<Rightarrow> row list \<Rightarrow> row list \<Rightarrow> db" where
  "sample_db locks stack idxs rows =
     \<lparr>tables = sample_tables locks stack idxs rows,
      disk = sample_tables locks stack idxs rows,
      index_files = []\<rparr>"

text \<open>
  A database whose in-memory copy of \<^verbatim>\<open>people\<close> is stale: another process has
  inserted and persisted a row since this process loaded the table.
\<close>

definition stale_db :: db where
  "stale_db =
     \<lparr>tables = sample_tables [] [] [] [],
      disk = sample_tables [] [] [] [[VInt 1, VStr ''ann'']],
      index_files = []\<rparr>"

section \<open>Predicates on states and operations\<close>

text \<open>
  \<^verbatim>\<open>meta_insert_stack\<close> has its schema and two values in every row. The
  free-position stack of a table is the \<^verbatim>\<open>indexes\<close> value of its first record.
\<close>

definition stack_schema :: "table \<Rightarrow> bool" where
  "stack_schema mis =
     (column_names mis = [''table_name'', ''indexes''] \<and> pk mis = None \<and>
      unique_columns mis = None \<and> list_all (\<lambda>r. length r = 2) (data mis))"

definition free_stack :: "table \<Rightarrow> string \<Rightarrow> val option" where
  "free_stack mis table_name =
     (case filter (\<lambda>r. cell r 0 = VStr table_name) (data mis) of
        [] \<Rightarrow> None
      | r # _ \<Rightarrow> Some (cell r 1))"

text \<open>
  In the tables \<open>tabs\<close> (those in memory, or those on disk), the table \<open>n\<close> is \<open>t\<close>
  and its free-position stack is \<open>v\<close>.
\<close>

definition view :: "string \<Rightarrow> table \<Rightarrow> val \<Rightarrow> (string \<times> table) list \<Rightarrow> bool" where
  "view n t v tabs =
     (map_of tabs n = Some t \<and>
      (\<exists>mis. map_of tabs ''meta_insert_stack'' = Some mis \<and> stack_schema mis \<and>
             free_stack mis n = Some v))"


text \<open>The lock table is \<open>ml\<close>, in memory and on disk.\<close>

definition locks_are :: "table \<Rightarrow> db \<Rightarrow> bool" where
  "locks_are ml s =
     (map_of (tables s) ''meta_locks'' = Some ml \<and> map_of (disk s) ''meta_locks'' = Some ml)"

text \<open>Every table of \<^verbatim>\<open>self.tables\<close> is on disk as it is in memory.\<close>

definition persisted :: "db \<Rightarrow> bool" where
  "persisted s = list_all (\<lambda>n. map_of (disk s) n = map_of (tables s) n) (map fst (tables s))"

text \<open>No persisted table has a dot in its name.\<close>

definition no_dots :: "(string \<times> 'v) list \<Rightarrow> bool" where
  "no_dots files = list_all (\<lambda>k. CHR ''.'' \<notin> set k) (map fst files)"

text \<open>
  An operation reloads first, from the state \<open>s\<close>, when running it is the same as
  running it on the reloaded state: its result, and on success its final state, do not
  depend on the in-memory copies of the persisted tables. It persists afterwards when
  every success ends in a persisted state.
\<close>

definition reloads_first :: "unit action \<Rightarrow> db \<Rightarrow> bool" where
  "reloads_first m s =
     (fst (m s) = fst (m (load_database s)) \<and>
      (fst (m s) = Inr () \<longrightarrow> snd (m s) = snd (m (load_database s))))"

definition persists_after :: "unit action \<Rightarrow> bool" where
  "persists_after m = (\<forall>s. fst (m s) = Inr () \<longrightarrow> persisted (snd (m s)))"

text \<open>
  The proof rule for operations: from a state satisfying \<open>P\<close>, a normal return with
  value \<open>a\<close> ends in a state satisfying \<open>Q a\<close>, a raise in a state satisfying \<open>E\<close>.
\<close>

definition valid :: "(db \<Rightarrow> bool) \<Rightarrow> 'a action \<Rightarrow> ('a \<Rightarrow> db \<Rightarrow> bool) \<Rightarrow> (db \<Rightarrow> bool) \<Rightarrow> bool" where
  "valid P m Q E =
     (\<forall>s. P s \<longrightarrow> (case m s of (Inr a, s') \<Rightarrow> Q a s' | (Inl e, s') \<Rightarrow> E s'))"

section \<open>Properties\<close>

subsection \<open>Lemmas on the lock table\<close>

lemma sample_coerce_ok: "coerce_ok sample_coerce"
  by (simp add: coerce_ok_def sample_coerce_def)

lemma named_row_not_tombstone: "cell r 0 = VStr n \<Longrightarrow> \<not> tombstone r"
  by (cases r) (auto simp: cell_def tombstone_def)

lemma filter_named:
  "filter (\<lambda>r. \<not> tombstone r \<and> cell r 0 = VStr n) rows = filter (\<lambda>r. cell r 0 = VStr n) rows"
  by (rule filter_cong) (auto dest: named_row_not_tombstone)

lemma lock_owner_schema:
  assumes "lock_schema ml"
  shows "lock_owner ml n = Inr (owner_of ml n)"
  using assms
  by (auto simp add: lock_owner_def select_where_def lock_schema_def meta_locks_table_def
      eq_cond_def owner_of_def filter_named split: list.splits)

lemma insert_lock_row:
  assumes "lock_schema ml" "coerce_ok cv"
  shows "insert_row cv ml [VStr n, VInt me, VStr ''x''] []
       = Inr (ml\<lparr>data := data ml @ [[VStr n, VInt me, VStr ''x'']]\<rparr>)"
  using assms
  by (auto simp add: insert_row_def lock_schema_def meta_locks_table_def coerce_ok_def duplicates_def key_columns_def)

lemma delete_lock_rows:
  assumes "lock_schema ml"
  shows "\<exists>dead. delete_where ml (eq_cond ''table_name'' (VStr n))
       = Inr (ml\<lparr>data := filter (\<lambda>r. cell r 0 \<noteq> VStr n) (data ml)\<rparr>, dead)"
  using assms
  by (auto simp add: delete_where_def lock_schema_def meta_locks_table_def eq_cond_def Let_def)

lemma map_of_put [simp]: "map_of (tables (put_table n t s)) m = (if m = n then Some t else map_of (tables s) m)"
  by (simp add: put_table_def update_conv')

lemma has_table_put [simp]: "has_table (put_table n t s) m = (m = n \<or> has_table s m)"
  by (auto simp: has_table_def)

lemma disk_put [simp]: "disk (put_table n t s) = disk s"
  by (simp add: put_table_def)

lemma save_put_locks:
  "save_locks (put_table ''meta_locks'' ml' s) = Inr (with_locks ml' s)"
  by (simp add: save_locks_def with_locks_def update_conv' put_table_def)

lemma with_locks_put [simp]:
  "with_locks ml' (put_table ''meta_locks'' ml s) = with_locks ml' s"
  by (simp add: with_locks_def put_table_def)

subsection \<open>C1: lock acquisition\<close>

text \<open>
  C1 (as amended). For a table name that starts with \<^verbatim>\<open>meta\<close> or is not a table of
  the database, \<^verbatim>\<open>lock_table\<close> returns \<^verbatim>\<open>None\<close> and leaves the state as it
  was. For any other name, with the persisted lock table \<open>ml\<close>, \<^verbatim>\<open>lock_table\<close> in
  mode \<^verbatim>\<open>'x'\<close> is tri-state: with no lock record for the table it appends the record
  \<open>[table, me, 'x']\<close>, saves the lock table and returns \<^verbatim>\<open>True\<close>; with a record
  owned by the caller it returns \<^verbatim>\<open>False\<close> and inserts nothing (the lock table is
  only reloaded); with a record owned by another pid it raises the error naming that
  pid and inserts nothing.
\<close>

theorem lock_table_tristate:
  "(take 4 n = ''meta'' \<or> \<not> has_table s n \<longrightarrow> lock_table cv me n mode s = (Inr None, s)) \<and>
   (take 4 n \<noteq> ''meta'' \<and> has_table s n \<and> map_of (disk s) ''meta_locks'' = Some ml \<and>
    lock_schema ml \<and> coerce_ok cv \<longrightarrow>
      (owner_of ml n = None \<longrightarrow>
         lock_table cv me n ''x'' s =
           (Inr (Some True),
            with_locks (ml\<lparr>data := data ml @ [[VStr n, VInt me, VStr ''x'']]\<rparr>) s)) \<and>
      (owner_of ml n = Some (VInt me) \<longrightarrow>
         lock_table cv me n ''x'' s = (Inr (Some False), put_table ''meta_locks'' ml s)) \<and>
      (\<forall>p. owner_of ml n = Some p \<and> p \<noteq> VInt me \<longrightarrow>
         lock_table cv me n ''x'' s = (Inl (Locked p), put_table ''meta_locks'' ml s)))"
proof -
  have exempt: "take 4 n = ''meta'' \<or> \<not> has_table s n \<longrightarrow>
      lock_table cv me n mode s = (Inr None, s)"
    by (auto simp: lock_table_def)
  have tri: "take 4 n \<noteq> ''meta'' \<and> has_table s n \<and> map_of (disk s) ''meta_locks'' = Some ml \<and>
    lock_schema ml \<and> coerce_ok cv \<longrightarrow>
      (owner_of ml n = None \<longrightarrow>
         lock_table cv me n ''x'' s =
           (Inr (Some True),
            with_locks (ml\<lparr>data := data ml @ [[VStr n, VInt me, VStr ''x'']]\<rparr>) s)) \<and>
      (owner_of ml n = Some (VInt me) \<longrightarrow>
         lock_table cv me n ''x'' s = (Inr (Some False), put_table ''meta_locks'' ml s)) \<and>
      (\<forall>p. owner_of ml n = Some p \<and> p \<noteq> VInt me \<longrightarrow>
         lock_table cv me n ''x'' s = (Inl (Locked p), put_table ''meta_locks'' ml s))"
    by (simp add: lock_table_def lock_owner_schema insert_lock_row save_put_locks Let_def)
  from exempt tri show ?thesis by (rule conjI)
qed

lemma sample_simps:
  "map_of (sample_tables l st ix rows) ''meta_locks'' = Some (meta_locks_table l)"
  "map_of (sample_tables l st ix rows) ''people'' = Some (people_table rows)"
  "map_of (sample_tables l st ix rows) ''meta_length'' = Some (meta_length_table [[VStr ''people'', VInt (int (length (filter (list_ex truthy) rows)))]])"
  "map_of (sample_tables l st ix rows) ''meta_insert_stack'' = Some (meta_insert_stack_table [[VStr ''people'', VList st]])"
  "map_of (sample_tables l st ix rows) ''meta_indexes'' = Some (meta_indexes_table ix)"
  by (simp_all add: sample_tables_def)

text \<open>
  The three cases on the sample database, for process 7, and the two exemptions: a meta
  table, and a name that is not a table of the database.
\<close>

theorem lock_table_tristate_witness:
  "lock_table sample_coerce 7 ''people'' ''x'' (sample_db [] [] [] []) =
     (Inr (Some True),
      with_locks (meta_locks_table [[VStr ''people'', VInt 7, VStr ''x'']]) (sample_db [] [] [] [])) \<and>
   lock_table sample_coerce 7 ''people'' ''x''
       (sample_db [[VStr ''people'', VInt 7, VStr ''x'']] [] [] []) =
     (Inr (Some False),
      put_table ''meta_locks'' (meta_locks_table [[VStr ''people'', VInt 7, VStr ''x'']])
        (sample_db [[VStr ''people'', VInt 7, VStr ''x'']] [] [] [])) \<and>
   lock_table sample_coerce 7 ''people'' ''x''
       (sample_db [[VStr ''people'', VInt 9, VStr ''x'']] [] [] []) =
     (Inl (Locked (VInt 9)),
      put_table ''meta_locks'' (meta_locks_table [[VStr ''people'', VInt 9, VStr ''x'']])
        (sample_db [[VStr ''people'', VInt 9, VStr ''x'']] [] [] [])) \<and>
   lock_table sample_coerce 7 ''meta_indexes'' ''x'' (sample_db [] [] [] []) =
     (Inr None, sample_db [] [] [] []) \<and>
   lock_table sample_coerce 7 ''ghost'' ''x'' (sample_db [] [] [] []) =
     (Inr None, sample_db [] [] [] [])"
  using lock_table_tristate [of "''people''" "sample_db [] [] [] []" sample_coerce 7 "''x''"
       "meta_locks_table []"]
    lock_table_tristate [of "''people''" "sample_db [[VStr ''people'', VInt 7, VStr ''x'']] [] [] []"
       sample_coerce 7 "''x''" "meta_locks_table [[VStr ''people'', VInt 7, VStr ''x'']]"]
    lock_table_tristate [of "''people''" "sample_db [[VStr ''people'', VInt 9, VStr ''x'']] [] [] []"
       sample_coerce 7 "''x''" "meta_locks_table [[VStr ''people'', VInt 9, VStr ''x'']]"]
    lock_table_tristate [of "''meta_indexes''" "sample_db [] [] [] []" sample_coerce 7 "''x''"
       "meta_locks_table []"]
    lock_table_tristate [of "''ghost''" "sample_db [] [] [] []" sample_coerce 7 "''x''"
       "meta_locks_table []"]
  by (simp add: sample_coerce_ok lock_schema_def sample_db_def sample_simps has_table_def owner_of_def
      cell_def meta_locks_table_def sample_tables_def)

text \<open>
  C1 as stated (for every table name) fails on a meta table: \<^verbatim>\<open>meta_length\<close> is a
  table of the database with no lock record, and \<^verbatim>\<open>lock_table\<close> returns
  \<^verbatim>\<open>None\<close>, not \<^verbatim>\<open>True\<close>, and leaves the state as it was: no record is inserted.
\<close>

theorem lock_table_meta_counterexample:
  "owner_of (meta_locks_table []) ''meta_length'' = None \<and>
   has_table (sample_db [] [] [] []) ''meta_length'' \<and>
   lock_table sample_coerce 7 ''meta_length'' ''x'' (sample_db [] [] [] []) =
     (Inr None, sample_db [] [] [] []) \<and>
   fst (lock_table sample_coerce 7 ''meta_length'' ''x'' (sample_db [] [] [] [])) \<noteq> Inr (Some True)"
  by (simp add: lock_table_def owner_of_def meta_locks_table_def has_table_def sample_db_def sample_simps)

subsection \<open>C2: the lock test\<close>

text \<open>
  C2 (as amended). For a table name that does not start with \<^verbatim>\<open>meta\<close>,
  \<^verbatim>\<open>is_locked\<close> reloads the lock table and raises the error naming the owner when
  the table's lock record is owned by a pid different from the caller's; with no record,
  or a record owned by the caller, it returns \<^verbatim>\<open>False\<close>. It never returns
  \<^verbatim>\<open>True\<close>.
\<close>

theorem is_locked_raises_for_foreign_owner:
  assumes "take 4 n \<noteq> ''meta''"
    and "map_of (disk s) ''meta_locks'' = Some ml" and "lock_schema ml"
  shows "is_locked me n s =
           (case owner_of ml n of
              None \<Rightarrow> (Inr False, put_table ''meta_locks'' ml s)
            | Some p \<Rightarrow> if p \<noteq> VInt me then (Inl (Locked p), put_table ''meta_locks'' ml s)
                        else (Inr False, put_table ''meta_locks'' ml s)) \<and>
         fst (is_locked me n s) \<noteq> Inr True"
  using assms
  by (simp add: is_locked_def lock_owner_schema Let_def split: option.splits)

text \<open>A self-owned record and no record, on the sample database.\<close>

theorem is_locked_raises_for_foreign_owner_witness:
  "is_locked 7 ''people'' (sample_db [[VStr ''people'', VInt 7, VStr ''x'']] [] [] []) =
     (Inr False, put_table ''meta_locks'' (meta_locks_table [[VStr ''people'', VInt 7, VStr ''x'']])
                   (sample_db [[VStr ''people'', VInt 7, VStr ''x'']] [] [] [])) \<and>
   fst (is_locked 7 ''people'' (sample_db [] [] [] [])) = Inr False"
  using is_locked_raises_for_foreign_owner [of "''people''"
      "sample_db [[VStr ''people'', VInt 7, VStr ''x'']] [] [] []"
      "meta_locks_table [[VStr ''people'', VInt 7, VStr ''x'']]" 7]
    is_locked_raises_for_foreign_owner [of "''people''" "sample_db [] [] [] []" "meta_locks_table []" 7]
  by (simp add: lock_schema_def sample_db_def sample_simps owner_of_def cell_def meta_locks_table_def)

text \<open>
  C2 as stated fails: with a record owned by pid 9, process 7 does not get \<^verbatim>\<open>True\<close>
  but the error.
\<close>

theorem is_locked_true_counterexample:
  "owner_of (meta_locks_table [[VStr ''people'', VInt 9, VStr ''x'']]) ''people'' = Some (VInt 9) \<and>
   fst (is_locked 7 ''people'' (sample_db [[VStr ''people'', VInt 9, VStr ''x'']] [] [] []))
     = Inl (Locked (VInt 9)) \<and>
   fst (is_locked 7 ''people'' (sample_db [[VStr ''people'', VInt 9, VStr ''x'']] [] [] []))
     \<noteq> Inr True"
  by (simp add: is_locked_def lock_owner_def select_where_def eq_cond_def owner_of_def cell_def
      tombstone_def meta_locks_table_def sample_db_def sample_simps Let_def)

lemma remove_lock_records_schema:
  assumes "lock_schema ml"
  shows "remove_lock_records n ml s =
           (Inr (), with_locks (ml\<lparr>data := filter (\<lambda>r. cell r 0 \<noteq> VStr n) (data ml)\<rparr>) s)"
  using delete_lock_rows[OF assms, of n]
  by (auto simp: remove_lock_records_def save_put_locks)

subsection \<open>C8: release\<close>

text \<open>
  C8 (as amended). For a name that is not a table of the database
  (\<^verbatim>\<open>table_name not in self.tables\<close>), \<^verbatim>\<open>unlock_table\<close> raises, with or without
  \<^verbatim>\<open>force\<close>, and leaves the state as it was. For a table of the database, when the
  lock table \<open>ml\<close> in memory is the persisted one: with \<^verbatim>\<open>force\<close>, or with no
  record for the table, or with a record owned by the caller, \<^verbatim>\<open>unlock_table\<close>
  removes the table's lock record and saves the lock table; otherwise it raises the
  error naming the owner and leaves the state, and so the record, as it was.
\<close>

theorem unlock_table_cases:
  "(\<not> has_table s n \<longrightarrow> unlock_table me n force s = (Inl (NotInDatabase n), s)) \<and>
   (has_table s n \<and> locks_are ml s \<and> lock_schema ml \<longrightarrow>
      (force \<or> owner_of ml n = None \<or> owner_of ml n = Some (VInt me) \<longrightarrow>
         unlock_table me n force s =
           (Inr (), with_locks (ml\<lparr>data := filter (\<lambda>r. cell r 0 \<noteq> VStr n) (data ml)\<rparr>) s)) \<and>
      (\<forall>p. \<not> force \<and> owner_of ml n = Some p \<and> p \<noteq> VInt me \<longrightarrow>
         unlock_table me n force s = (Inl (Locked p), s)))"
proof -
  have unknown: "\<not> has_table s n \<longrightarrow> unlock_table me n force s = (Inl (NotInDatabase n), s)"
    by (simp add: unlock_table_def)
  have known: "has_table s n \<and> locks_are ml s \<and> lock_schema ml \<longrightarrow>
      (force \<or> owner_of ml n = None \<or> owner_of ml n = Some (VInt me) \<longrightarrow>
         unlock_table me n force s =
           (Inr (), with_locks (ml\<lparr>data := filter (\<lambda>r. cell r 0 \<noteq> VStr n) (data ml)\<rparr>) s)) \<and>
      (\<forall>p. \<not> force \<and> owner_of ml n = Some p \<and> p \<noteq> VInt me \<longrightarrow>
         unlock_table me n force s = (Inl (Locked p), s))"
    by (auto simp: unlock_table_def locks_are_def lock_owner_schema remove_lock_records_schema)
  from unknown known show ?thesis by (rule conjI)
qed

text \<open>
  Forced release, release by the owner, refused release, and a release of a name that is
  not a table of the database (unforced and forced), on the sample database.
\<close>

theorem unlock_table_cases_witness:
  "unlock_table 7 ''people'' True (sample_db [[VStr ''people'', VInt 9, VStr ''x'']] [] [] []) =
     (Inr (), with_locks (meta_locks_table [])
                (sample_db [[VStr ''people'', VInt 9, VStr ''x'']] [] [] [])) \<and>
   unlock_table 7 ''people'' False (sample_db [[VStr ''people'', VInt 7, VStr ''x'']] [] [] []) =
     (Inr (), with_locks (meta_locks_table [])
                (sample_db [[VStr ''people'', VInt 7, VStr ''x'']] [] [] [])) \<and>
   unlock_table 7 ''people'' False (sample_db [[VStr ''people'', VInt 9, VStr ''x'']] [] [] []) =
     (Inl (Locked (VInt 9)), sample_db [[VStr ''people'', VInt 9, VStr ''x'']] [] [] []) \<and>
   unlock_table 7 ''ghost'' False (sample_db [] [] [] []) =
     (Inl (NotInDatabase ''ghost''), sample_db [] [] [] []) \<and>
   unlock_table 9 ''ghost'' True (sample_db [[VStr ''ghost'', VInt 9, VStr ''x'']] [] [] []) =
     (Inl (NotInDatabase ''ghost''), sample_db [[VStr ''ghost'', VInt 9, VStr ''x'']] [] [] [])"
  using unlock_table_cases [of "sample_db [[VStr ''people'', VInt 9, VStr ''x'']] [] [] []" "''people''"
      7 True "meta_locks_table [[VStr ''people'', VInt 9, VStr ''x'']]"]
    unlock_table_cases [of "sample_db [[VStr ''people'', VInt 7, VStr ''x'']] [] [] []" "''people''"
      7 False "meta_locks_table [[VStr ''people'', VInt 7, VStr ''x'']]"]
    unlock_table_cases [of "sample_db [[VStr ''people'', VInt 9, VStr ''x'']] [] [] []" "''people''"
      7 False "meta_locks_table [[VStr ''people'', VInt 9, VStr ''x'']]"]
    unlock_table_cases [of "sample_db [] [] [] []" "''ghost''" 7 False "meta_locks_table []"]
    unlock_table_cases [of "sample_db [[VStr ''ghost'', VInt 9, VStr ''x'']] [] [] []" "''ghost''"
      9 True "meta_locks_table [[VStr ''ghost'', VInt 9, VStr ''x'']]"]
  by (simp add: lock_schema_def locks_are_def sample_db_def sample_simps has_table_def owner_of_def
      cell_def meta_locks_table_def sample_tables_def)

text \<open>
  C8 as stated (for every table name) fails for a name that is not in
  \<^verbatim>\<open>self.tables\<close>: even with \<^verbatim>\<open>force\<close> the record stays and an error is raised.
\<close>

theorem unlock_table_unknown_counterexample:
  "owner_of (meta_locks_table [[VStr ''ghost'', VInt 9, VStr ''x'']]) ''ghost'' = Some (VInt 9) \<and>
   unlock_table 7 ''ghost'' True (sample_db [[VStr ''ghost'', VInt 9, VStr ''x'']] [] [] []) =
     (Inl (NotInDatabase ''ghost''), sample_db [[VStr ''ghost'', VInt 9, VStr ''x'']] [] [] [])"
  by (simp add: unlock_table_def has_table_def owner_of_def cell_def meta_locks_table_def
      sample_db_def sample_tables_def)

subsection \<open>C9: index creation on a table without unique columns\<close>

text \<open>
  C9. If a table has a primary key (\<^verbatim>\<open>pk_idx\<close> is set) and \<^verbatim>\<open>unique_columns\<close> is
  \<^verbatim>\<open>None\<close>, then \<^verbatim>\<open>create_index\<close> on a column other than the primary key
  raises: the \<^verbatim>\<open>TypeError\<close> of the membership test on \<^verbatim>\<open>None\<close> when the index
  type is supported (the unsupported-type error otherwise). The state is left as it was:
  no row is added to \<^verbatim>\<open>meta_indexes\<close> and no index is built or saved.
\<close>

theorem create_index_without_unique_columns:
  assumes "map_of (tables s) table_name = Some t"
    and "pk_idx t \<noteq> None" and "unique_columns t = None" and "Some column_name \<noteq> pk t"
  shows "(index_type \<in> set [''btree'', ''hash''] \<longrightarrow>
            create_index cv index_name table_name column_name index_type s = (Inl TypeError, s)) \<and>
         (\<exists>e. create_index cv index_name table_name column_name index_type s = (Inl e, s))"
  using assms by (auto simp: create_index_def not_key_column_def)

text \<open>An index on \<^verbatim>\<open>people.name\<close>, where \<^verbatim>\<open>people\<close> has the primary key \<^verbatim>\<open>id\<close> only.\<close>

theorem create_index_without_unique_columns_witness:
  "create_index sample_coerce ''by_name'' ''people'' ''name'' ''btree''
     (sample_db [] [] [] [[VInt 1, VStr ''ann'']])
   = (Inl TypeError, sample_db [] [] [] [[VInt 1, VStr ''ann'']])"
  using create_index_without_unique_columns [of "sample_db [] [] [] [[VInt 1, VStr ''ann'']]"
      "''people''" "people_table [[VInt 1, VStr ''ann'']]" "''name''" "''btree''" sample_coerce "''by_name''"]
  by (simp add: sample_db_def sample_simps people_table_def)

subsection \<open>C10: index construction skips empty keys\<close>

lemma entries_index_add [simp]: "entries (index_add k p ix) = entries ix @ [(k, p)]"
  by (cases ix) simp_all

lemma entries_build_index:
  "entries (build_index ix kvs) =
     entries ix @ map (\<lambda>(p, k). (k, p)) (filter (\<lambda>(p, k). k \<noteq> VNone) kvs)"
  by (induction ix kvs rule: build_index.induct) auto

lemma enumerate_column:
  "enumerate 0 (map f rows) = map (\<lambda>p. (p, f (rows ! p))) [0 ..< length rows]"
  by (auto simp: enumerate_eq_zip intro!: nth_equalityI)

lemma cell_not_tombstone: "cell r i \<noteq> VNone \<Longrightarrow> \<not> tombstone r"
  by (auto simp: cell_def tombstone_def list_all_iff split: if_splits)

text \<open>
  C10. \<^verbatim>\<open>_construct_index\<close> on an existing table and column saves an index whose
  entries are exactly the pairs (value, position) of the row positions whose value in
  the indexed column is not \<^verbatim>\<open>None\<close>, in position order; so a lookup in the built
  index returns only positions of rows that were not tombstones at build time.
\<close>

theorem construct_index_skips_empty_keys:
  assumes "map_of (tables s) table_name = Some t"
    and "index_of (column_names t) column_name = Some i"
  shows "\<exists>ix. construct_index table_name column_name index_name index_type s =
                (Inr (), s\<lparr>index_files := AList.update index_name ix (index_files s)\<rparr>) \<and>
              entries ix = map (\<lambda>p. (cell (data t ! p) i, p))
                             (filter (\<lambda>p. cell (data t ! p) i \<noteq> VNone) [0 ..< length (data t)]) \<and>
              (\<forall>k. \<forall>p \<in> set (index_lookup ix k).
                 p < length (data t) \<and> cell (data t ! p) i = k \<and> \<not> tombstone (data t ! p))"
proof -
  let ?ix = "build_index (if index_type = ''btree'' then BtreeIndex [] else HashIndex [])
               (enumerate 0 (map (\<lambda>r. cell r i) (data t)))"
  have run: "construct_index table_name column_name index_name index_type s =
               (Inr (), s\<lparr>index_files := AList.update index_name ?ix (index_files s)\<rparr>)"
    using assms
    by (simp add: construct_index_def then_do_def get_table_def column_by_name_def save_index_def lift_def)
  have ent: "entries ?ix = map (\<lambda>p. (cell (data t ! p) i, p))
                             (filter (\<lambda>p. cell (data t ! p) i \<noteq> VNone) [0 ..< length (data t)])"
    by (simp add: entries_build_index enumerate_column filter_map comp_def)
  have look: "\<forall>k. \<forall>p \<in> set (index_lookup ?ix k).
                 p < length (data t) \<and> cell (data t ! p) i = k \<and> \<not> tombstone (data t ! p)"
    unfolding index_lookup_def ent by (auto dest: cell_not_tombstone)
  from run ent look show ?thesis by blast
qed

text \<open>A table with a tombstone at position 1: the index on \<^verbatim>\<open>id\<close> holds positions 0 and 2.\<close>

theorem construct_index_skips_empty_keys_witness:
  "\<exists>ix. construct_index ''people'' ''id'' ''by_id'' ''btree''
           (sample_db [] [1] [] [[VInt 1, VStr ''ann''], [VNone, VNone], [VInt 3, VStr ''cy'']]) =
          (Inr (), (sample_db [] [1] [] [[VInt 1, VStr ''ann''], [VNone, VNone], [VInt 3, VStr ''cy'']])
                     \<lparr>index_files := [(''by_id'', ix)]\<rparr>) \<and>
        entries ix = [(VInt 1, 0), (VInt 3, 2)]"
  using construct_index_skips_empty_keys [of
      "sample_db [] [1] [] [[VInt 1, VStr ''ann''], [VNone, VNone], [VInt 3, VStr ''cy'']]"
      "''people''" "people_table [[VInt 1, VStr ''ann''], [VNone, VNone], [VInt 3, VStr ''cy'']]"
      "''id''" 0 "''by_id''" "''btree''"]
  by (auto simp add: sample_db_def sample_simps people_table_def cell_def upt_rec [of 0]
      upt_rec [of 1] upt_rec [of 2] upt_rec [of 3])

subsection \<open>C3: index-nested-loop join without an index on the join column\<close>

text \<open>
  C3 (the code departs from the claim). \<^verbatim>\<open>people\<close> has an index on \<^verbatim>\<open>id\<close> and the
  join column is \<^verbatim>\<open>name\<close>: \<^verbatim>\<open>join\<close> in mode \<^verbatim>\<open>'inl'\<close> passes the test
  "neither table has an index", finds no index on the join column on either side, never
  assigns \<^verbatim>\<open>res\<close> and fails with \<^verbatim>\<open>UnboundLocalError\<close>, not with the exception it
  raises when no table has any index (second conjunct).
\<close>

theorem join_inl_other_column_is_unbound:
  "fst (join (\<lambda>t c. ret []) 7 ''inl'' ''people'' ''people'' ''name=name''
          (sample_db [] [] [[VStr ''people'', VStr ''id'', VStr ''by_id'', VStr ''btree'']]
             [[VInt 1, VStr ''ann'']]))
     = Inl UnboundLocalError \<and>
   fst (join (\<lambda>t c. ret []) 7 ''inl'' ''people'' ''people'' ''name=name''
          (sample_db [] [] [] [[VInt 1, VStr ''ann'']]))
     = Inl IndexUnavailable"
  by code_simp

subsection \<open>C6: failures and durable state\<close>

text \<open>
  C6 (the code departs from the claim). Casting \<^verbatim>\<open>people.name\<close> to \<^verbatim>\<open>int\<close> fails
  on the value \<^verbatim>\<open>'ann'\<close>; \<^verbatim>\<open>cast\<close> had acquired the lock and does not release
  it, so the lock record of process 7 stays in the persisted lock table, which was empty
  before. The failing \<^verbatim>\<open>insert_into\<close> of \<^verbatim>\<open>'x,bob'\<close> on the same database releases
  the lock it acquired and leaves the disk as it was.
\<close>

theorem cast_failure_keeps_lock_record:
  "fst (cast sample_coerce sample_bound 7 ''name'' ''people'' ''int'' (sample_db [] [] [] [[VInt 1, VStr ''ann'']]))
     = Inl SchemaMismatch \<and>
   map_of (disk (sample_db [] [] [] [[VInt 1, VStr ''ann'']])) ''meta_locks''
     = Some (meta_locks_table []) \<and>
   map_of (disk (snd (cast sample_coerce sample_bound 7 ''name'' ''people'' ''int''
                        (sample_db [] [] [] [[VInt 1, VStr ''ann'']])))) ''meta_locks''
     = Some (meta_locks_table [[VStr ''people'', VInt 7, VStr ''x'']]) \<and>
   fst (insert_into sample_coerce 7 ''people'' ''x,bob'' (sample_db [] [] [] [[VInt 1, VStr ''ann'']]))
     = Inl SchemaMismatch \<and>
   disk (snd (insert_into sample_coerce 7 ''people'' ''x,bob''
                (sample_db [] [] [] [[VInt 1, VStr ''ann'']])))
     = disk (sample_db [] [] [] [[VInt 1, VStr ''ann'']])"
  by code_simp

subsection \<open>Saving and loading\<close>

lemma map_of_fold_write:
  "map_of (fold (\<lambda>k d. case map_of src k of None \<Rightarrow> d | Some v \<Rightarrow> AList.update k v d) ks dst) k =
     (if k \<in> set ks then (case map_of src k of Some v \<Rightarrow> Some v | None \<Rightarrow> map_of dst k)
      else map_of dst k)"
  by (induction ks arbitrary: dst) (auto simp: update_conv' split: option.splits)

lemma map_of_write_all:
  "map_of (write_all src dst) k = (case map_of src k of Some v \<Rightarrow> Some v | None \<Rightarrow> map_of dst k)"
proof (cases "k \<in> fst ` set src")
  case True
  then show ?thesis by (simp add: write_all_def dict_keys_def map_of_fold_write)
next
  case False
  then have "map_of src k = None" by (simp add: map_of_eq_None_iff)
  with False show ?thesis by (simp add: write_all_def dict_keys_def map_of_fold_write)
qed

lemma fold_write_same:
  "\<forall>k \<in> set ks. \<forall>v. map_of src k = Some v \<longrightarrow> map_of dst k = Some v \<Longrightarrow>
   fold (\<lambda>k d. case map_of src k of None \<Rightarrow> d | Some v \<Rightarrow> AList.update k v d) ks dst = dst"
  by (induction ks) (auto simp: update_triv split: option.splits)

lemma write_all_twice: "write_all src (write_all src dst) = write_all src dst"
  unfolding write_all_def [of src "write_all src dst"]
  by (rule fold_write_same) (simp add: map_of_write_all)

lemma split_on_before_dot:
  "CHR ''.'' \<notin> set k \<Longrightarrow> split_on CHR ''.'' (k @ CHR ''.'' # rest) = k # split_on CHR ''.'' rest"
  by (induction k) auto

lemma file_stem_plain: "CHR ''.'' \<notin> set k \<Longrightarrow> file_stem k = k"
  by (simp add: file_stem_def split_on_before_dot)

lemma read_all_plain:
  assumes "no_dots files"
  shows "read_all files dst = write_all files dst"
proof -
  have "\<forall>k \<in> set (dict_keys files). file_stem k = k"
    using assms by (auto simp: no_dots_def dict_keys_def list_all_iff intro: file_stem_plain)
  then have "fold (\<lambda>k d. case map_of files k of None \<Rightarrow> d
                         | Some v \<Rightarrow> AList.update (file_stem k) v d) (dict_keys files) dst =
             fold (\<lambda>k d. case map_of files k of None \<Rightarrow> d
                         | Some v \<Rightarrow> AList.update k v d) (dict_keys files) dst"
    by (intro fold_cong) (auto split: option.splits)
  then show ?thesis by (simp add: read_all_def write_all_def)
qed

lemma disk_load [simp]: "disk (load_database s) = disk s"
  by (simp add: load_database_def)

lemma load_database_idem:
  "no_dots (disk s) \<Longrightarrow> load_database (load_database s) = load_database s"
  by (simp add: load_database_def read_all_plain write_all_twice)

lemma map_of_load:
  "no_dots (disk s) \<Longrightarrow>
   map_of (tables (load_database s)) n =
     (case map_of (disk s) n of Some t \<Rightarrow> Some t | None \<Rightarrow> map_of (tables s) n)"
  by (simp add: load_database_def read_all_plain map_of_write_all)

lemma map_of_save:
  "map_of (disk (save_database s)) n =
     (case map_of (tables s) n of Some t \<Rightarrow> Some t | None \<Rightarrow> map_of (disk s) n)"
  by (simp add: save_database_def map_of_write_all)

lemma tables_save [simp]: "tables (save_database s) = tables s"
  by (simp add: save_database_def)

lemma persisted_save: "persisted (save_database s)"
  by (auto simp: persisted_def list_all_iff map_of_save split: option.splits
      simp: map_of_eq_None_iff)


subsection \<open>Rules for operations\<close>

lemma valid_ret: "(\<And>s. P s \<Longrightarrow> Q a s) \<Longrightarrow> valid P (ret a) Q E"
  by (simp add: valid_def ret_def)

lemma valid_raise: "(\<And>s. P s \<Longrightarrow> E s) \<Longrightarrow> valid P (raise e) Q E"
  by (simp add: valid_def raise_def)

lemma valid_lift: "(\<And>s. P s \<Longrightarrow> Q () (f s)) \<Longrightarrow> valid P (lift f) Q E"
  by (simp add: valid_def lift_def)

lemma valid_then_do:
  assumes "valid P m R E" and "\<And>a. valid (R a) (f a) Q E"
  shows "valid P (then_do m f) Q E"
  using assms unfolding valid_def then_do_def
  by (fastforce split: prod.splits sum.splits)

lemma valid_catch:
  assumes "valid P m Q E'" and "\<And>e. valid E' (h e) Q E"
  shows "valid P (catch m h) Q E"
  using assms unfolding valid_def catch_def
  by (fastforce split: prod.splits sum.splits)

lemma valid_weaken:
  assumes "valid P' m Q' E'" and "\<And>s. P s \<Longrightarrow> P' s" and "\<And>a s. Q' a s \<Longrightarrow> Q a s"
    and "\<And>s. E' s \<Longrightarrow> E s"
  shows "valid P m Q E"
  using assms unfolding valid_def
  by (fastforce split: prod.splits sum.splits)

lemma valid_any: "valid P m (\<lambda>_ _. True) (\<lambda>_. True)"
  by (simp add: valid_def split: prod.splits sum.splits)

lemma valid_last:
  assumes "\<And>a. valid (\<lambda>_. True) (f a) Q (\<lambda>_. True)"
  shows "valid (\<lambda>_. True) (then_do m f) Q (\<lambda>_. True)"
  by (rule valid_then_do [OF valid_any]) (rule assms)

lemma valid_save: "valid P (lift save_database) (\<lambda>_. persisted) E"
  by (simp add: valid_def lift_def persisted_save)

lemma validD:
  assumes "valid P m Q E" and "P s" and "m s = (Inr a, s')"
  shows "Q a s'"
proof -
  from assms(1) have "P s \<longrightarrow> (case m s of (Inr a, s') \<Rightarrow> Q a s' | (Inl e, s') \<Rightarrow> E s')"
    unfolding valid_def by (rule spec)
  from this assms(2) have "case m s of (Inr a, s') \<Rightarrow> Q a s' | (Inl e, s') \<Rightarrow> E s'"
    by (rule mp)
  with assms(3) show ?thesis by simp
qed

lemma validE:
  assumes "valid P m Q E" and "P s" and "m s = (Inl e, s')"
  shows "E s'"
proof -
  from assms(1) have "P s \<longrightarrow> (case m s of (Inr a, s') \<Rightarrow> Q a s' | (Inl e, s') \<Rightarrow> E s')"
    unfolding valid_def by (rule spec)
  from this assms(2) have "case m s of (Inr a, s') \<Rightarrow> Q a s' | (Inl e, s') \<Rightarrow> E s'"
    by (rule mp)
  with assms(3) show ?thesis by simp
qed

lemma persists_afterI:
  assumes "valid (\<lambda>_. True) m (\<lambda>_. persisted) (\<lambda>_. True)"
  shows "persists_after m"
  unfolding persists_after_def
proof (intro allI impI)
  fix s
  assume ok: "fst (m s) = Inr ()"
  obtain r s' where run: "m s = (r, s')" by (cases "m s")
  with ok have "r = Inr ()" by simp
  with run have "m s = (Inr (), s')" by simp
  from validD [OF assms _ this] run show "persisted (snd (m s))" by simp
qed

lemma reloads_firstI: "m (load_database s) = m s \<Longrightarrow> reloads_first m s"
  by (simp add: reloads_first_def)

lemma then_load:
  "no_dots (disk s) \<Longrightarrow>
   then_do (lift load_database) f (load_database s) = then_do (lift load_database) f s"
  by (simp add: then_do_def lift_def load_database_idem)

subsection \<open>C5: reload before, persist after\<close>

lemma persists_cast: "persists_after (cast cv bound me c n ty)"
  unfolding cast_def by (intro persists_afterI valid_last valid_save)

lemma persists_sort: "persists_after (sort_table srt cv me n c asc)"
  unfolding sort_table_def by (intro persists_afterI valid_last valid_save)

lemma persists_insert: "persists_after (insert_into cv me n row_str)"
  unfolding insert_into_def Let_def by (intro persists_afterI valid_last valid_save)

lemma persists_delete: "persists_after (delete_from cv me n cnd)"
  unfolding delete_from_def by (intro persists_afterI valid_last valid_save)

lemma persists_drop: "persists_after (drop_table cv me n)"
  unfolding drop_table_def by (intro persists_afterI valid_last valid_save)

lemma persists_update: "persists_after (update cv me n set_args cnd)"
proof (cases "\<exists>a b. split_on CHR ''='' (filter (\<lambda>c. c \<noteq> CHR '' '') set_args) = [a, b]")
  case True
  then obtain a b where "split_on CHR ''='' (filter (\<lambda>c. c \<noteq> CHR '' '') set_args) = [a, b]"
    by blast
  then show ?thesis
    unfolding update_def by (simp, intro persists_afterI valid_last valid_save)
next
  case False
  then have "update cv me n set_args cnd = raise ValueError"
    unfolding update_def by (auto split: list.splits)
  then show ?thesis by (simp add: persists_after_def raise_def)
qed

lemma persists_create: "persists_after (create_table cv n cols tys key uniq)"
proof (cases "new_table n (split_on CHR '','' cols) (split_on CHR '','' tys) key
                (map_option (split_on CHR '','') uniq)")
  case (Inl e)
  then show ?thesis by (simp add: create_table_def persists_after_def raise_def)
next
  case (Inr t)
  then show ?thesis
    unfolding create_table_def by (simp, intro persists_afterI valid_last valid_save)
qed

lemma reloads_cast: "no_dots (disk s) \<Longrightarrow> reloads_first (cast cv bound me c n ty) s"
  unfolding cast_def by (rule reloads_firstI) (rule then_load)

lemma reloads_sort: "no_dots (disk s) \<Longrightarrow> reloads_first (sort_table srt cv me n c asc) s"
  unfolding sort_table_def by (rule reloads_firstI) (rule then_load)

lemma reloads_insert: "no_dots (disk s) \<Longrightarrow> reloads_first (insert_into cv me n row_str) s"
  unfolding insert_into_def Let_def by (rule reloads_firstI) (rule then_load)

lemma reloads_delete: "no_dots (disk s) \<Longrightarrow> reloads_first (delete_from cv me n cnd) s"
  unfolding delete_from_def by (rule reloads_firstI) (rule then_load)

lemma reloads_drop: "no_dots (disk s) \<Longrightarrow> reloads_first (drop_table cv me n) s"
  unfolding drop_table_def by (rule reloads_firstI) (rule then_load)

lemma reloads_update:
  assumes "no_dots (disk s)"
  shows "reloads_first (update cv me n set_args cnd) s"
proof (cases "\<exists>a b. split_on CHR ''='' (filter (\<lambda>c. c \<noteq> CHR '' '') set_args) = [a, b]")
  case True
  then obtain a b where "split_on CHR ''='' (filter (\<lambda>c. c \<noteq> CHR '' '') set_args) = [a, b]"
    by blast
  then show ?thesis
    unfolding update_def using assms by (simp, intro reloads_firstI then_load)
next
  case False
  then have "update cv me n set_args cnd = raise ValueError"
    unfolding update_def by (auto split: list.splits)
  then show ?thesis by (simp add: reloads_first_def raise_def)
qed

text \<open>
  C5 (as amended). From a state in which no persisted table has a dot in its name,
  \<^verbatim>\<open>load_database\<close> brings every persisted table into memory, and \<^verbatim>\<open>drop_table\<close>,
  \<^verbatim>\<open>insert_into\<close>, \<^verbatim>\<open>update\<close>, \<^verbatim>\<open>delete_from\<close>, \<^verbatim>\<open>sort\<close> and \<^verbatim>\<open>cast\<close> reload
  first: their result, and on success their final state, are those of a run on the
  reloaded state. Each of them, and \<^verbatim>\<open>create_table\<close>, ends every successful run,
  from any state, with all tables of \<^verbatim>\<open>self.tables\<close> on disk as they are in memory.
  \<^verbatim>\<open>create_table\<close> is not among the operations that reload.
\<close>

theorem table_functions_reload_and_persist:
  assumes "no_dots (disk s)"
  shows "(\<forall>k t. map_of (disk s) k = Some t \<longrightarrow> map_of (tables (load_database s)) k = Some t) \<and>
   reloads_first (drop_table cv me n) s \<and> persists_after (drop_table cv me n) \<and>
   reloads_first (insert_into cv me n row_str) s \<and> persists_after (insert_into cv me n row_str) \<and>
   reloads_first (update cv me n set_args cnd) s \<and> persists_after (update cv me n set_args cnd) \<and>
   reloads_first (delete_from cv me n cnd) s \<and> persists_after (delete_from cv me n cnd) \<and>
   reloads_first (sort_table srt cv me n c asc) s \<and> persists_after (sort_table srt cv me n c asc) \<and>
   reloads_first (cast cv bound me c n ty) s \<and> persists_after (cast cv bound me c n ty) \<and>
   persists_after (create_table cv n cols tys key uniq)"
  using assms
  by (simp add: map_of_load reloads_drop persists_drop reloads_insert persists_insert
      reloads_update persists_update reloads_delete persists_delete reloads_sort persists_sort
      reloads_cast persists_cast persists_create)

text \<open>
  An insert from the stale database: the persisted row of the other process is reloaded,
  the insert succeeds and ends persisted.
\<close>

theorem table_functions_reload_and_persist_witness:
  "no_dots (disk stale_db) \<and>
   map_of (tables (load_database stale_db)) ''people'' = Some (people_table [[VInt 1, VStr ''ann'']]) \<and>
   fst (insert_into sample_coerce 7 ''people'' ''2,bob'' stale_db) = Inr () \<and>
   snd (insert_into sample_coerce 7 ''people'' ''2,bob'' stale_db) =
     snd (insert_into sample_coerce 7 ''people'' ''2,bob'' (load_database stale_db)) \<and>
   persisted (snd (insert_into sample_coerce 7 ''people'' ''2,bob'' stale_db))"
proof -
  have nd: "no_dots (disk stale_db)"
    by code_simp
  have d: "map_of (disk stale_db) ''people'' = Some (people_table [[VInt 1, VStr ''ann'']])"
    by (simp add: stale_db_def sample_simps)
  have ok: "fst (insert_into sample_coerce 7 ''people'' ''2,bob'' stale_db) = Inr ()"
    by code_simp
  from table_functions_reload_and_persist [OF nd, of sample_coerce 7 "''people''" "''2,bob''"]
  have "\<forall>k t. map_of (disk stale_db) k = Some t \<longrightarrow>
          map_of (tables (load_database stale_db)) k = Some t"
    and "reloads_first (insert_into sample_coerce 7 ''people'' ''2,bob'') stale_db"
    and "persists_after (insert_into sample_coerce 7 ''people'' ''2,bob'')"
    by simp_all
  with nd d ok show ?thesis
    unfolding reloads_first_def persists_after_def by blast
qed

text \<open>
  C5 as stated fails for \<^verbatim>\<open>create_table\<close>: run from the stale database it succeeds
  without reloading and saves the stale, empty \<^verbatim>\<open>people\<close> over the persisted row;
  run on the reloaded state it keeps the row.
\<close>

theorem create_table_stale_counterexample:
  "map_of (disk stale_db) ''people'' = Some (people_table [[VInt 1, VStr ''ann'']]) \<and>
   fst (create_table sample_coerce ''pets'' ''id,name'' ''int,str'' (Some ''id'') None stale_db)
     = Inr () \<and>
   map_of (disk (snd (create_table sample_coerce ''pets'' ''id,name'' ''int,str'' (Some ''id'') None
                        stale_db))) ''people''
     = Some (people_table []) \<and>
   map_of (disk (snd (create_table sample_coerce ''pets'' ''id,name'' ''int,str'' (Some ''id'') None
                        (load_database stale_db)))) ''people''
     = Some (people_table [[VInt 1, VStr ''ann'']])"
  by code_simp

subsection \<open>C4: the owner's lock record is kept\<close>

lemma keeps_ret: "valid I (ret a) (\<lambda>_. I) I"
  by (rule valid_ret)

lemma keeps_raise: "valid I (raise e) (\<lambda>_. I) I"
  by (rule valid_raise)

lemma keeps_get_table: "valid I (get_table n) (\<lambda>_. I) I"
  by (simp add: valid_def get_table_def split: option.splits)

lemma keeps_then:
  "valid I m (\<lambda>_. I) I \<Longrightarrow> (\<And>a. valid I (f a) (\<lambda>_. I) I) \<Longrightarrow> valid I (then_do m f) (\<lambda>_. I) I"
  by (rule valid_then_do)

lemma keeps_catch:
  "valid I m (\<lambda>_. I) I \<Longrightarrow> (\<And>e. valid I (h e) (\<lambda>_. I) I) \<Longrightarrow> valid I (catch m h) (\<lambda>_. I) I"
  by (rule valid_catch)

lemma locks_are_put: "n \<noteq> ''meta_locks'' \<Longrightarrow> locks_are ml (put_table n t s) = locks_are ml s"
  by (simp add: locks_are_def)

lemma keeps_on_table:
  "n \<noteq> ''meta_locks'' \<Longrightarrow> valid (locks_are ml) (on_table n f) (\<lambda>_. locks_are ml) (locks_are ml)"
  by (auto simp: valid_def on_table_def locks_are_put split: option.splits prod.splits sum.splits)

lemma keeps_save: "valid (locks_are ml) (lift save_database) (\<lambda>_. locks_are ml) (locks_are ml)"
  by (simp add: valid_def lift_def locks_are_def map_of_save)

lemma keeps_meta_length_step:
  "valid (locks_are ml) (meta_length_step cv t) (\<lambda>_. locks_are ml) (locks_are ml)"
  unfolding meta_length_step_def
  by (auto intro!: keeps_then keeps_get_table keeps_raise keeps_ret keeps_on_table
      split: sum.splits)

lemma keeps_meta_length_loop:
  "valid (locks_are ml) (update_meta_length_loop cv ts) (\<lambda>_. locks_are ml) (locks_are ml)"
proof (induction ts)
  case Nil
  show ?case by (simp add: valid_def)
next
  case (Cons t ts)
  have step: "update_meta_length_loop cv (t # ts) =
        (if take 4 (t_name t) = ''meta'' then update_meta_length_loop cv ts
         else then_do (meta_length_step cv t) (\<lambda>_. update_meta_length_loop cv ts))"
    by (rule ext) (simp add: then_do_def split: prod.splits sum.splits)
  show ?case unfolding step
    using Cons.IH by (auto intro!: keeps_then keeps_meta_length_step)
qed

lemma keeps_meta_insert_stack_step:
  "valid (locks_are ml) (meta_insert_stack_step cv t) (\<lambda>_. locks_are ml) (locks_are ml)"
  unfolding meta_insert_stack_step_def
  by (auto intro!: keeps_then keeps_get_table keeps_raise keeps_ret keeps_on_table
      split: sum.splits)

lemma keeps_meta_insert_stack_loop:
  "valid (locks_are ml) (update_meta_insert_stack_loop cv ts) (\<lambda>_. locks_are ml) (locks_are ml)"
proof (induction ts)
  case Nil
  show ?case by (simp add: valid_def)
next
  case (Cons t ts)
  have step: "update_meta_insert_stack_loop cv (t # ts) =
        (if take 4 (t_name t) = ''meta'' then update_meta_insert_stack_loop cv ts
         else then_do (meta_insert_stack_step cv t) (\<lambda>_. update_meta_insert_stack_loop cv ts))"
    by (rule ext) (simp add: then_do_def split: prod.splits sum.splits)
  show ?case unfolding step
    using Cons.IH by (auto intro!: keeps_then keeps_meta_insert_stack_step)
qed

lemma keeps_update_meta:
  "valid (locks_are ml) (update_meta cv) (\<lambda>_. locks_are ml) (locks_are ml)"
proof -
  have a: "valid (locks_are ml) (update_meta_length cv) (\<lambda>_. locks_are ml) (locks_are ml)"
    using keeps_meta_length_loop [of ml cv]
    by (simp add: valid_def update_meta_length_def)
  have b: "valid (locks_are ml) (update_meta_insert_stack cv) (\<lambda>_. locks_are ml) (locks_are ml)"
    using keeps_meta_insert_stack_loop [of ml cv]
    by (simp add: valid_def update_meta_insert_stack_def)
  show ?thesis unfolding update_meta_def by (intro keeps_then a b)
qed

lemma keeps_get_insert_stack:
  "valid I (get_insert_stack_for_table n) (\<lambda>_. I) I"
  unfolding get_insert_stack_for_table_def
  by (auto intro!: keeps_then keeps_get_table keeps_raise keeps_ret
      split: sum.splits option.splits list.splits)

lemma keeps_stack_for_tb:
  "valid (locks_are ml) (update_meta_insert_stack_for_tb n v) (\<lambda>_. locks_are ml) (locks_are ml)"
  unfolding update_meta_insert_stack_for_tb_def by (rule keeps_on_table) simp

lemma keeps_add_to_stack:
  "valid (locks_are ml) (add_to_insert_stack n idxs) (\<lambda>_. locks_are ml) (locks_are ml)"
  unfolding add_to_insert_stack_def
  by (auto intro!: keeps_then keeps_get_insert_stack keeps_raise keeps_stack_for_tb
      split: val.splits)

lemma keeps_release_if:
  "own \<noteq> Some True \<Longrightarrow> valid I (release_if me n own) (\<lambda>_. I) I"
  by (simp add: release_if_def keeps_ret)

lemma valid_snd:
  assumes "valid P m (\<lambda>_. I) I" and "P s"
  shows "I (snd (m s))"
proof (cases "m s")
  case (Pair r s')
  show ?thesis
  proof (cases r)
    case (Inl e)
    with Pair validE [OF assms, of e s'] show ?thesis by simp
  next
    case (Inr a)
    with Pair validD [OF assms, of a s'] show ?thesis by simp
  qed
qed

lemma not_meta_locks: "take 4 n \<noteq> ''meta'' \<Longrightarrow> n \<noteq> ''meta_locks''"
  by auto

lemma on_table_missing: "\<not> has_table s n \<Longrightarrow> on_table n f s = (Inl (KeyError n), s)"
  by (simp add: on_table_def has_table_def)

lemma get_table_missing: "\<not> has_table s n \<Longrightarrow> get_table n s = (Inl (KeyError n), s)"
  by (simp add: get_table_def has_table_def)

lemma then_do_fails: "m s = (Inl e, s') \<Longrightarrow> then_do m f s = (Inl e, s')"
  by (simp add: then_do_def)

lemma get_insert_stack_state: "snd (get_insert_stack_for_table n s) = s"
  by (simp add: get_insert_stack_for_table_def then_do_def get_table_def raise_def ret_def
      split: option.splits sum.splits list.splits)

text \<open>
  The frame of a table function run by the owner of the lock: after the reload, either
  the table is in memory, \<^verbatim>\<open>lock_table\<close> returns \<^verbatim>\<open>False\<close> with the persisted lock
  table in memory, and the rest keeps it; or the table is not in memory,
  \<^verbatim>\<open>lock_table\<close> returns \<^verbatim>\<open>None\<close>, and the rest fails without a change.
\<close>

lemma owner_frame:
  assumes nm: "take 4 n \<noteq> ''meta''" and sch: "lock_schema ml"
    and own: "owner_of ml n = Some (VInt me)"
    and body: "\<And>own. own \<noteq> Some True \<Longrightarrow>
                 valid (locks_are ml) (rest own) (\<lambda>_. locks_are ml) (locks_are ml)"
    and absent: "\<And>s. \<not> has_table s n \<Longrightarrow> \<exists>e. rest None s = (Inl e, s)"
    and D: "map_of (disk s) ''meta_locks'' = Some ml"
  shows "map_of (disk (snd (then_do (lift load_database)
                              (\<lambda>_. then_do (lock_table cv me n ''x'') rest) s))) ''meta_locks''
           = Some ml"
proof -
  let ?sA = "load_database s"
  have run: "then_do (lift load_database) (\<lambda>_. then_do (lock_table cv me n ''x'') rest) s =
             then_do (lock_table cv me n ''x'') rest ?sA"
    by (simp add: then_do_def lift_def)
  from D have DA: "map_of (disk ?sA) ''meta_locks'' = Some ml" by simp
  show ?thesis
  proof (cases "has_table ?sA n")
    case True
    let ?sB = "put_table ''meta_locks'' ml ?sA"
    from True nm sch own DA
    have lock: "lock_table cv me n ''x'' ?sA = (Inr (Some False), ?sB)"
      by (simp add: lock_table_def lock_owner_schema Let_def)
    from DA have "locks_are ml ?sB" by (simp add: locks_are_def)
    moreover have "valid (locks_are ml) (rest (Some False)) (\<lambda>_. locks_are ml) (locks_are ml)"
      by (rule body) simp
    ultimately have "locks_are ml (snd (rest (Some False) ?sB))"
      by (rule valid_snd [rotated])
    moreover have "then_do (lock_table cv me n ''x'') rest ?sA = rest (Some False) ?sB"
      by (simp add: then_do_def lock)
    ultimately show ?thesis unfolding run by (simp add: locks_are_def)
  next
    case False
    then have lock: "lock_table cv me n ''x'' ?sA = (Inr None, ?sA)"
      by (simp add: lock_table_def)
    from absent [OF False] obtain e where "rest None ?sA = (Inl e, ?sA)" by blast
    then have "then_do (lock_table cv me n ''x'') rest ?sA = (Inl e, ?sA)"
      by (simp add: then_do_def lock)
    with DA show ?thesis unfolding run by simp
  qed
qed

lemma owner_cast:
  assumes "take 4 n \<noteq> ''meta''" and "lock_schema ml" and "owner_of ml n = Some (VInt me)"
    and "map_of (disk s) ''meta_locks'' = Some ml"
  shows "map_of (disk (snd (cast cv bound me c n ty s))) ''meta_locks'' = Some ml"
  unfolding cast_def
proof (rule owner_frame [OF assms(1-3) _ _ assms(4)])
  fix own :: "bool option"
  assume "own \<noteq> Some True"
  then show "valid (locks_are ml)
     (then_do (get_table n) (\<lambda>_.
      then_do (if bound ty then ret () else raise NameError) (\<lambda>_.
      then_do (on_table n (atomic (\<lambda>t. cast_column cv t c ty))) (\<lambda>_.
      then_do (release_if me n own) (\<lambda>_.
      then_do (update_meta cv) (\<lambda>_. lift save_database))))))
     (\<lambda>_. locks_are ml) (locks_are ml)"
    using assms(1)
    by (auto intro!: keeps_then keeps_get_table keeps_ret keeps_raise keeps_on_table
        keeps_release_if keeps_update_meta keeps_save)
next
  fix s' :: db
  assume "\<not> has_table s' n"
  then show "\<exists>e. then_do (get_table n) (\<lambda>_.
      then_do (if bound ty then ret () else raise NameError) (\<lambda>_.
      then_do (on_table n (atomic (\<lambda>t. cast_column cv t c ty))) (\<lambda>_.
      then_do (release_if me n None) (\<lambda>_.
      then_do (update_meta cv) (\<lambda>_. lift save_database))))) s' = (Inl e, s')"
    by (simp add: then_do_fails [OF get_table_missing])
qed

lemma owner_sort:
  assumes "take 4 n \<noteq> ''meta''" and "lock_schema ml" and "owner_of ml n = Some (VInt me)"
    and "map_of (disk s) ''meta_locks'' = Some ml"
  shows "map_of (disk (snd (sort_table srt cv me n c asc s))) ''meta_locks'' = Some ml"
  unfolding sort_table_def
proof (rule owner_frame [OF assms(1-3) _ _ assms(4)])
  fix own :: "bool option"
  assume "own \<noteq> Some True"
  then show "valid (locks_are ml)
     (then_do (on_table n (atomic (\<lambda>t. srt t c asc))) (\<lambda>_.
      then_do (release_if me n own) (\<lambda>_.
      then_do (update_meta cv) (\<lambda>_. lift save_database))))
     (\<lambda>_. locks_are ml) (locks_are ml)"
    using assms(1)
    by (auto intro!: keeps_then keeps_on_table keeps_release_if keeps_update_meta keeps_save)
next
  fix s' :: db
  assume "\<not> has_table s' n"
  then show "\<exists>e. then_do (on_table n (atomic (\<lambda>t. srt t c asc))) (\<lambda>_.
      then_do (release_if me n None) (\<lambda>_.
      then_do (update_meta cv) (\<lambda>_. lift save_database))) s' = (Inl e, s')"
    by (simp add: then_do_fails [OF on_table_missing])
qed

lemma owner_delete:
  assumes "take 4 n \<noteq> ''meta''" and "lock_schema ml" and "owner_of ml n = Some (VInt me)"
    and "map_of (disk s) ''meta_locks'' = Some ml"
  shows "map_of (disk (snd (delete_from cv me n cnd s))) ''meta_locks'' = Some ml"
  unfolding delete_from_def
proof (rule owner_frame [OF assms(1-3) _ _ assms(4)])
  fix own :: "bool option"
  assume "own \<noteq> Some True"
  then show "valid (locks_are ml)
     (then_do (on_table n
                (\<lambda>t. case delete_where t cnd of
                        Inl e \<Rightarrow> (Inl e, t)
                      | Inr (t', dead) \<Rightarrow> (Inr dead, t'))) (\<lambda>deleted.
      then_do (release_if me n own) (\<lambda>_.
      then_do (update_meta cv) (\<lambda>_.
      then_do (lift save_database) (\<lambda>_.
      then_do (if take 4 n \<noteq> ''meta''
               then add_to_insert_stack n deleted else ret ()) (\<lambda>_.
      lift save_database))))))
     (\<lambda>_. locks_are ml) (locks_are ml)"
    using assms(1)
    by (auto intro!: keeps_then keeps_on_table keeps_release_if keeps_update_meta keeps_save
        keeps_add_to_stack)
next
  fix s' :: db
  assume "\<not> has_table s' n"
  then show "\<exists>e. then_do (on_table n
                (\<lambda>t. case delete_where t cnd of
                        Inl e \<Rightarrow> (Inl e, t)
                      | Inr (t', dead) \<Rightarrow> (Inr dead, t'))) (\<lambda>deleted.
      then_do (release_if me n None) (\<lambda>_.
      then_do (update_meta cv) (\<lambda>_.
      then_do (lift save_database) (\<lambda>_.
      then_do (if take 4 n \<noteq> ''meta''
               then add_to_insert_stack n deleted else ret ()) (\<lambda>_.
      lift save_database))))) s' = (Inl e, s')"
    by (simp add: then_do_fails [OF on_table_missing])
qed

lemma owner_update:
  assumes "take 4 n \<noteq> ''meta''" and "lock_schema ml" and "owner_of ml n = Some (VInt me)"
    and "map_of (disk s) ''meta_locks'' = Some ml"
  shows "map_of (disk (snd (update cv me n set_args cnd s))) ''meta_locks'' = Some ml"
proof (cases "\<exists>a b. split_on CHR ''='' (filter (\<lambda>c. c \<noteq> CHR '' '') set_args) = [a, b]")
  case True
  then obtain a b where ab: "split_on CHR ''='' (filter (\<lambda>c. c \<noteq> CHR '' '') set_args) = [a, b]"
    by blast
  have "map_of (disk (snd (then_do (lift load_database) (\<lambda>_.
          then_do (lock_table cv me n ''x'') (\<lambda>lock_ownership.
          then_do (on_table n (\<lambda>t. update_rows t (VStr b) a cnd)) (\<lambda>_.
          then_do (release_if me n lock_ownership) (\<lambda>_.
          then_do (update_meta cv) (\<lambda>_. lift save_database))))) s))) ''meta_locks'' = Some ml"
  proof (rule owner_frame [OF assms(1-3) _ _ assms(4)])
    fix own :: "bool option"
    assume "own \<noteq> Some True"
    then show "valid (locks_are ml)
       (then_do (on_table n (\<lambda>t. update_rows t (VStr b) a cnd)) (\<lambda>_.
        then_do (release_if me n own) (\<lambda>_.
        then_do (update_meta cv) (\<lambda>_. lift save_database))))
       (\<lambda>_. locks_are ml) (locks_are ml)"
      using assms(1)
      by (auto intro!: keeps_then keeps_on_table keeps_release_if keeps_update_meta keeps_save)
  next
    fix s' :: db
    assume "\<not> has_table s' n"
    then show "\<exists>e. then_do (on_table n (\<lambda>t. update_rows t (VStr b) a cnd)) (\<lambda>_.
        then_do (release_if me n None) (\<lambda>_.
        then_do (update_meta cv) (\<lambda>_. lift save_database))) s' = (Inl e, s')"
      by (simp add: then_do_fails [OF on_table_missing])
  qed
  then show ?thesis by (simp add: update_def ab)
next
  case False
  then have "update cv me n set_args cnd = raise ValueError"
    unfolding update_def by (auto split: list.splits)
  with assms(4) show ?thesis by (simp add: raise_def)
qed

lemma owner_insert:
  assumes "take 4 n \<noteq> ''meta''" and "lock_schema ml" and "owner_of ml n = Some (VInt me)"
    and "map_of (disk s) ''meta_locks'' = Some ml"
  shows "map_of (disk (snd (insert_into cv me n row_str s))) ''meta_locks'' = Some ml"
  unfolding insert_into_def Let_def
proof (rule owner_frame [OF assms(1-3) _ _ assms(4)])
  let ?row = "map VStr (split_on CHR '','' (strip row_str))"
  fix own :: "bool option"
  assume "own \<noteq> Some True"
  then show "valid (locks_are ml)
     (then_do (get_insert_stack_for_table n) (\<lambda>insert_stack.
      then_do (catch
                 (case insert_stack of
                    VList st \<Rightarrow>
                      then_do (on_table n (atomic (\<lambda>t. insert_row cv t ?row st)))
                        (\<lambda>_. ret st)
                  | _ \<Rightarrow> raise TypeError)
                 (\<lambda>e. then_do (release_if me n own) (\<lambda>_. raise e))) (\<lambda>st.
      then_do (update_meta_insert_stack_for_tb n (VList (butlast st))) (\<lambda>_.
      then_do (release_if me n own) (\<lambda>_.
      then_do (update_meta cv) (\<lambda>_. lift save_database))))))
     (\<lambda>_. locks_are ml) (locks_are ml)"
    using assms(1)
    by (auto intro!: keeps_then keeps_catch keeps_on_table keeps_release_if keeps_update_meta
        keeps_save keeps_get_insert_stack keeps_stack_for_tb keeps_ret keeps_raise
        split: val.splits)
next
  let ?row = "map VStr (split_on CHR '','' (strip row_str))"
  fix s' :: db
  assume missing: "\<not> has_table s' n"
  obtain r where gs: "get_insert_stack_for_table n s' = (r, s')"
    using get_insert_stack_state [of n s'] by (cases "get_insert_stack_for_table n s'") simp
  show "\<exists>e. then_do (get_insert_stack_for_table n) (\<lambda>insert_stack.
      then_do (catch
                 (case insert_stack of
                    VList st \<Rightarrow>
                      then_do (on_table n (atomic (\<lambda>t. insert_row cv t ?row st)))
                        (\<lambda>_. ret st)
                  | _ \<Rightarrow> raise TypeError)
                 (\<lambda>e. then_do (release_if me n None) (\<lambda>_. raise e))) (\<lambda>st.
      then_do (update_meta_insert_stack_for_tb n (VList (butlast st))) (\<lambda>_.
      then_do (release_if me n None) (\<lambda>_.
      then_do (update_meta cv) (\<lambda>_. lift save_database))))) s' = (Inl e, s')"
  proof (cases r)
    case (Inl e)
    with gs show ?thesis by (simp add: then_do_def)
  next
    case (Inr v)
    with gs missing show ?thesis
      by (cases v)
         (simp_all add: then_do_def catch_def on_table_missing release_if_def ret_def raise_def)
  qed
qed

text \<open>
  C4. Let the persisted lock table hold a record of a non-meta table owned by the
  caller. Then \<^verbatim>\<open>lock_table\<close>, run after the reload on a table of the database,
  returns \<^verbatim>\<open>False\<close> and changes nothing: the lock table it reloads is the persisted
  one, which is in memory already when no persisted name has a dot. And after
  \<^verbatim>\<open>insert_into\<close>, \<^verbatim>\<open>update\<close>, \<^verbatim>\<open>delete_from\<close>, \<^verbatim>\<open>sort\<close> and \<^verbatim>\<open>cast\<close> on that
  table, however they end, the persisted lock table is the one from before: no second
  record, and no release.
\<close>

theorem owner_keeps_lock_record:
  assumes "take 4 n \<noteq> ''meta''" and "map_of (disk s) ''meta_locks'' = Some ml"
    and "lock_schema ml" and "owner_of ml n = Some (VInt me)"
  shows "(has_table (load_database s) n \<longrightarrow>
            lock_table cv me n ''x'' (load_database s) =
              (Inr (Some False), put_table ''meta_locks'' ml (load_database s))) \<and>
         (no_dots (disk s) \<longrightarrow> put_table ''meta_locks'' ml (load_database s) = load_database s) \<and>
         map_of (disk (snd (insert_into cv me n row_str s))) ''meta_locks'' = Some ml \<and>
         map_of (disk (snd (update cv me n set_args cnd s))) ''meta_locks'' = Some ml \<and>
         map_of (disk (snd (delete_from cv me n cnd s))) ''meta_locks'' = Some ml \<and>
         map_of (disk (snd (sort_table srt cv me n c asc s))) ''meta_locks'' = Some ml \<and>
         map_of (disk (snd (cast cv bound me c n ty s))) ''meta_locks'' = Some ml"
proof -
  have held: "has_table (load_database s) n \<longrightarrow>
            lock_table cv me n ''x'' (load_database s) =
              (Inr (Some False), put_table ''meta_locks'' ml (load_database s))"
    using assms by (simp add: lock_table_def lock_owner_schema Let_def)
  have plain: "no_dots (disk s) \<longrightarrow> put_table ''meta_locks'' ml (load_database s) = load_database s"
    using assms(2) by (simp add: put_table_def update_triv map_of_load)
  show ?thesis
    using held plain owner_insert [OF assms(1,3,4,2)] owner_update [OF assms(1,3,4,2)]
      owner_delete [OF assms(1,3,4,2)] owner_sort [OF assms(1,3,4,2)]
      owner_cast [OF assms(1,3,4,2)]
    by simp
qed

text \<open>Process 7 inserts into \<^verbatim>\<open>people\<close> while holding its lock.\<close>

theorem owner_keeps_lock_record_witness:
  "lock_table sample_coerce 7 ''people'' ''x''
     (load_database (sample_db [[VStr ''people'', VInt 7, VStr ''x'']] [] [] [[VInt 1, VStr ''ann'']]))
     = (Inr (Some False),
        load_database (sample_db [[VStr ''people'', VInt 7, VStr ''x'']] [] [] [[VInt 1, VStr ''ann'']])) \<and>
   fst (insert_into sample_coerce 7 ''people'' ''2,bob''
          (sample_db [[VStr ''people'', VInt 7, VStr ''x'']] [] [] [[VInt 1, VStr ''ann'']])) = Inr () \<and>
   map_of (disk (snd (insert_into sample_coerce 7 ''people'' ''2,bob''
          (sample_db [[VStr ''people'', VInt 7, VStr ''x'']] [] [] [[VInt 1, VStr ''ann'']]))))
      ''meta_locks'' = Some (meta_locks_table [[VStr ''people'', VInt 7, VStr ''x'']])"
proof -
  let ?s = "sample_db [[VStr ''people'', VInt 7, VStr ''x'']] [] [] [[VInt 1, VStr ''ann'']]"
  let ?ml = "meta_locks_table [[VStr ''people'', VInt 7, VStr ''x'']]"
  have 1: "take 4 ''people'' \<noteq> ''meta''" by simp
  have 2: "map_of (disk ?s) ''meta_locks'' = Some ?ml" by (simp add: sample_db_def sample_simps)
  have 3: "lock_schema ?ml" by (auto simp: lock_schema_def)
  have 4: "owner_of ?ml ''people'' = Some (VInt 7)"
    by (simp add: owner_of_def meta_locks_table_def cell_def)
  have 5: "has_table (load_database ?s) ''people''" by code_simp
  have 6: "fst (insert_into sample_coerce 7 ''people'' ''2,bob'' ?s) = Inr ()" by code_simp
  have 7: "no_dots (disk ?s)" by code_simp
  from owner_keeps_lock_record [OF 1 2 3 4, of sample_coerce "''2,bob''"] 5 6 7
  show ?thesis by simp
qed

subsection \<open>C7: freed positions are recorded and reused\<close>

lemma then_do_ok:
  "then_do m f s = (Inr b, s') \<longleftrightarrow> (\<exists>a s''. m s = (Inr a, s'') \<and> f a s'' = (Inr b, s'))"
  by (auto simp: then_do_def split: prod.splits sum.splits)

lemma lift_ok: "lift f s = (Inr a, s') \<longleftrightarrow> s' = f s"
  by (auto simp: lift_def)

lemma coerce_row_length: "coerce_row cv tys r = Some r' \<Longrightarrow> length r' = length r"
  by (induction cv tys r arbitrary: r' rule: coerce_row.induct)
     (auto split: option.splits)

lemma insert_row_append:
  assumes "insert_row cv t r [] = Inr t'"
  shows "\<exists>r'. t' = t\<lparr>data := data t @ [r']\<rparr> \<and> length r' = length (column_names t)"
proof -
  from assms obtain r' where c: "coerce_row cv (column_types t) r = Some r'"
    and len: "length r = length (column_names t)" and t': "t' = t\<lparr>data := data t @ [r']\<rparr>"
    by (auto simp: insert_row_def split: if_splits option.splits)
  from coerce_row_length [OF c] len t' show ?thesis by auto
qed

lemma free_stack_append:
  "free_stack mis n = Some v \<Longrightarrow> free_stack (mis\<lparr>data := data mis @ [r]\<rparr>) n = Some v"
  by (auto simp: free_stack_def split: list.splits)

lemma stack_schema_append:
  "stack_schema mis \<Longrightarrow> length r = 2 \<Longrightarrow> stack_schema (mis\<lparr>data := data mis @ [r]\<rparr>)"
  by (simp add: stack_schema_def)

lemma view_cong:
  "map_of tabs' n = map_of tabs n \<Longrightarrow>
   map_of tabs' ''meta_insert_stack'' = map_of tabs ''meta_insert_stack'' \<Longrightarrow>
   view n t v tabs' = view n t v tabs"
  by (simp add: view_def)

lemma view_put_other:
  "k \<noteq> n \<Longrightarrow> k \<noteq> ''meta_insert_stack'' \<Longrightarrow>
   view n t v (tables (put_table k x s)) = view n t v (tables s)"
  by (rule view_cong) simp_all

lemma put_same: "map_of (tables s) k = Some t \<Longrightarrow> put_table k t s = s"
  by (simp add: put_table_def update_triv)

lemma view_on_table_other:
  "k \<noteq> n \<Longrightarrow> k \<noteq> ''meta_insert_stack'' \<Longrightarrow>
   valid (\<lambda>s. view n t v (tables s)) (on_table k f)
     (\<lambda>_ s. view n t v (tables s)) (\<lambda>s. view n t v (tables s))"
  by (auto simp: valid_def on_table_def view_put_other split: option.splits prod.splits sum.splits)

lemma view_stack_insert:
  assumes "n \<noteq> ''meta_insert_stack''"
  shows "valid (\<lambda>s. view n t v (tables s))
           (on_table ''meta_insert_stack'' (atomic (\<lambda>m. insert_row cv m r [])))
           (\<lambda>_ s. view n t v (tables s)) (\<lambda>s. view n t v (tables s))"
  unfolding valid_def
proof (intro allI impI)
  fix s :: db
  assume v: "view n t v (tables s)"
  then obtain mis where mis: "map_of (tables s) ''meta_insert_stack'' = Some mis"
    and sch: "stack_schema mis" and fs: "free_stack mis n = Some v"
    and tn: "map_of (tables s) n = Some t"
    by (auto simp: view_def)
  show "case on_table ''meta_insert_stack'' (atomic (\<lambda>m. insert_row cv m r [])) s of
          (Inr a, s') \<Rightarrow> view n t v (tables s') | (Inl e, s') \<Rightarrow> view n t v (tables s')"
  proof (cases "insert_row cv mis r []")
    case (Inl e)
    with mis v show ?thesis by (simp add: on_table_def atomic_def put_same)
  next
    case (Inr mis')
    from insert_row_append [OF Inr] sch obtain r' where
      m': "mis' = mis\<lparr>data := data mis @ [r']\<rparr>" and len: "length r' = 2"
      by (auto simp: stack_schema_def)
    have "view n t v (tables (put_table ''meta_insert_stack'' mis' s))"
      using assms tn sch fs len
      by (auto simp: view_def m' free_stack_append stack_schema_append)
    with mis Inr show ?thesis by (simp add: on_table_def atomic_def)
  qed
qed

lemma not_meta_names:
  assumes "take 4 n \<noteq> ''meta''"
  shows "n \<noteq> ''meta_insert_stack''" and "n \<noteq> ''meta_length''" and "n \<noteq> ''meta_locks''"
  using assms by auto

lemma view_meta_length_step:
  assumes "take 4 n \<noteq> ''meta''"
  shows "valid (\<lambda>s. view n t v (tables s)) (meta_length_step cv x)
           (\<lambda>_ s. view n t v (tables s)) (\<lambda>s. view n t v (tables s))"
  unfolding meta_length_step_def using not_meta_names [OF assms]
  by (auto intro!: keeps_then keeps_get_table keeps_raise keeps_ret view_on_table_other
      split: sum.splits)

lemma view_meta_length_loop:
  assumes "take 4 n \<noteq> ''meta''"
  shows "valid (\<lambda>s. view n t v (tables s)) (update_meta_length_loop cv ts)
           (\<lambda>_ s. view n t v (tables s)) (\<lambda>s. view n t v (tables s))"
proof (induction ts)
  case Nil
  show ?case by (simp add: valid_def)
next
  case (Cons x ts)
  have step: "update_meta_length_loop cv (x # ts) =
        (if take 4 (t_name x) = ''meta'' then update_meta_length_loop cv ts
         else then_do (meta_length_step cv x) (\<lambda>_. update_meta_length_loop cv ts))"
    by (rule ext) (simp add: then_do_def split: prod.splits sum.splits)
  show ?case unfolding step
    using Cons.IH by (auto intro!: keeps_then view_meta_length_step [OF assms])
qed

lemma view_meta_insert_stack_step:
  assumes "take 4 n \<noteq> ''meta''"
  shows "valid (\<lambda>s. view n t v (tables s)) (meta_insert_stack_step cv x)
           (\<lambda>_ s. view n t v (tables s)) (\<lambda>s. view n t v (tables s))"
  unfolding meta_insert_stack_step_def using not_meta_names [OF assms]
  by (auto intro!: keeps_then keeps_get_table keeps_raise keeps_ret view_stack_insert
      split: sum.splits)

lemma view_meta_insert_stack_loop:
  assumes "take 4 n \<noteq> ''meta''"
  shows "valid (\<lambda>s. view n t v (tables s)) (update_meta_insert_stack_loop cv ts)
           (\<lambda>_ s. view n t v (tables s)) (\<lambda>s. view n t v (tables s))"
proof (induction ts)
  case Nil
  show ?case by (simp add: valid_def)
next
  case (Cons x ts)
  have step: "update_meta_insert_stack_loop cv (x # ts) =
        (if take 4 (t_name x) = ''meta'' then update_meta_insert_stack_loop cv ts
         else then_do (meta_insert_stack_step cv x) (\<lambda>_. update_meta_insert_stack_loop cv ts))"
    by (rule ext) (simp add: then_do_def split: prod.splits sum.splits)
  show ?case unfolding step
    using Cons.IH by (auto intro!: keeps_then view_meta_insert_stack_step [OF assms])
qed

lemma view_update_meta:
  assumes "take 4 n \<noteq> ''meta''"
  shows "valid (\<lambda>s. view n t v (tables s)) (update_meta cv)
           (\<lambda>_ s. view n t v (tables s)) (\<lambda>s. view n t v (tables s))"
proof -
  have a: "valid (\<lambda>s. view n t v (tables s)) (update_meta_length cv)
             (\<lambda>_ s. view n t v (tables s)) (\<lambda>s. view n t v (tables s))"
    using view_meta_length_loop [OF assms, of t v cv]
    by (simp add: valid_def update_meta_length_def)
  have b: "valid (\<lambda>s. view n t v (tables s)) (update_meta_insert_stack cv)
             (\<lambda>_ s. view n t v (tables s)) (\<lambda>s. view n t v (tables s))"
    using view_meta_insert_stack_loop [OF assms, of t v cv]
    by (simp add: valid_def update_meta_insert_stack_def)
  show ?thesis unfolding update_meta_def by (intro keeps_then a b)
qed

lemma tables_save_locks:
  "save_locks s = Inr s' \<Longrightarrow> tables s' = tables s"
  by (auto simp: save_locks_def split: option.splits)

lemma lock_table_tables:
  assumes "lock_table cv me n mode s = (r, s')" and "k \<noteq> ''meta_locks''"
  shows "map_of (tables s') k = map_of (tables s) k"
  using assms
  by (auto simp: lock_table_def Let_def split: if_splits option.splits sum.splits
      dest!: tables_save_locks)

lemma remove_lock_records_tables:
  assumes "remove_lock_records n ml s = (r, s')" and "k \<noteq> ''meta_locks''"
  shows "map_of (tables s') k = map_of (tables s) k"
  using assms
  by (auto simp: remove_lock_records_def split: sum.splits prod.splits dest!: tables_save_locks)

lemma unlock_table_tables:
  assumes "unlock_table me n force s = (r, s')" and "k \<noteq> ''meta_locks''"
  shows "map_of (tables s') k = map_of (tables s) k"
  using assms
  by (auto simp: unlock_table_def split: if_splits option.splits sum.splits
      dest: remove_lock_records_tables)

lemma release_if_tables:
  assumes "release_if me n own s = (r, s')" and "k \<noteq> ''meta_locks''"
  shows "map_of (tables s') k = map_of (tables s) k"
  using assms
  by (auto simp: release_if_def ret_def split: if_splits dest: unlock_table_tables)


lemma get_stack_view:
  assumes "view n t v (tables s)"
  shows "get_insert_stack_for_table n s = (Inr v, s)"
proof -
  from assms obtain mis where mis: "map_of (tables s) ''meta_insert_stack'' = Some mis"
    and sch: "stack_schema mis" and fs: "free_stack mis n = Some v"
    by (auto simp: view_def)
  from fs obtain r rest where hits: "filter (\<lambda>r. cell r 0 = VStr n) (data mis) = r # rest"
    and v: "cell r 1 = v"
    by (auto simp: free_stack_def split: list.splits)
  from sch have cols: "column_names mis = [''table_name'', ''indexes'']"
    by (simp add: stack_schema_def)
  show ?thesis
    using mis hits v
    by (simp add: get_insert_stack_for_table_def then_do_def get_table_def select_where_def
        eq_cond_def cols filter_named ret_def)
qed

lemma update_scan_plain:
  "update_scan i j test v False seen rows =
     (Inr (), seen @ map (\<lambda>r. if \<not> tombstone r \<and> test (cell r i) then r[j := v] else r) rows)"
  by (induction rows arbitrary: seen) simp_all

lemma cell_update_other: "i \<noteq> j \<Longrightarrow> cell (r[j := v]) i = cell r i"
  by (simp add: cell_def)

lemma cell_update_same: "j < length r \<Longrightarrow> cell (r[j := v]) j = v"
  by (simp add: cell_def)

lemma filter_named_map:
  "filter (\<lambda>r. cell r 0 = VStr n)
     (map (\<lambda>r. if \<not> tombstone r \<and> cell r 0 = VStr n then r[Suc 0 := w] else r) rows) =
   map (\<lambda>r. r[Suc 0 := w]) (filter (\<lambda>r. cell r 0 = VStr n) rows)"
  by (induction rows) (auto simp: cell_update_other dest: named_row_not_tombstone)

lemma set_stack_view:
  assumes "view n t v (tables s)" and "n \<noteq> ''meta_insert_stack''"
  shows "\<exists>s'. update_meta_insert_stack_for_tb n w s = (Inr (), s') \<and> view n t w (tables s')"
proof -
  from assms obtain mis where mis: "map_of (tables s) ''meta_insert_stack'' = Some mis"
    and sch: "stack_schema mis" and fs: "free_stack mis n = Some v"
    and tn: "map_of (tables s) n = Some t"
    by (auto simp: view_def)
  let ?g = "\<lambda>r. if \<not> tombstone r \<and> cell r 0 = VStr n then r[Suc 0 := w] else r"
  let ?mis' = "mis\<lparr>data := map ?g (data mis)\<rparr>"
  from sch have cols: "column_names mis = [''table_name'', ''indexes'']"
    and keys: "key_columns mis = []" and len: "list_all (\<lambda>r. length r = 2) (data mis)"
    by (simp_all add: stack_schema_def key_columns_def)
  have upd: "update_rows mis w ''indexes'' (eq_cond ''table_name'' (VStr n)) = (Inr (), ?mis')"
    by (simp add: update_rows_def cols keys eq_cond_def update_scan_plain)
  have run: "update_meta_insert_stack_for_tb n w s = (Inr (), put_table ''meta_insert_stack'' ?mis' s)"
    by (simp add: update_meta_insert_stack_for_tb_def on_table_def mis upd)
  from fs obtain r rest where hits: "filter (\<lambda>r. cell r 0 = VStr n) (data mis) = r # rest"
    by (auto simp: free_stack_def split: list.splits)
  then have "r \<in> set (filter (\<lambda>r. cell r 0 = VStr n) (data mis))" by simp
  then have "r \<in> set (data mis)" by simp
  with len have "length r = 2" by (simp add: list_all_iff)
  then have fs': "free_stack ?mis' n = Some w"
    by (simp add: free_stack_def filter_named_map hits cell_update_same)
  have sch': "stack_schema ?mis'"
    using sch by (auto simp: stack_schema_def list_all_iff)
  have "view n t w (tables (put_table ''meta_insert_stack'' ?mis' s))"
    using tn assms(2) fs' sch' by (auto simp: view_def)
  with run show ?thesis by blast
qed

lemma view_save_disk: "view n t v (tables s) \<Longrightarrow> view n t v (disk (save_database s))"
  by (auto simp: view_def map_of_save)

lemma view_load:
  "no_dots (disk s) \<Longrightarrow> view n t v (disk s) \<Longrightarrow> view n t v (tables (load_database s))"
  by (auto simp: view_def map_of_load)

lemma view_step:
  assumes "view n t v (tables s)"
    and "map_of (tables s') n = map_of (tables s) n"
    and "map_of (tables s') ''meta_insert_stack'' = map_of (tables s) ''meta_insert_stack''"
  shows "view n t v (tables s')"
  using assms view_cong [of "tables s'" n "tables s" t v] by simp

lemma delete_records_positions:
  assumes nm: "take 4 n \<noteq> ''meta''" and nd: "no_dots (disk s)"
    and v0: "view n t (VList old) (disk s)"
    and del: "delete_from cv me n cnd s = (Inr (), s1)"
  shows "\<exists>t1 dead. delete_where t cnd = Inr (t1, dead) \<and> view n t1 (VList (old @ dead)) (disk s1)"
proof -
  note names = not_meta_names [OF nm]
  from del nm obtain own sB dead sC sD sE sG where
    lock: "lock_table cv me n ''x'' (load_database s) = (Inr own, sB)"
    and dl: "on_table n (\<lambda>t. case delete_where t cnd of
                        Inl e \<Rightarrow> (Inl e, t)
                      | Inr (t', dead) \<Rightarrow> (Inr dead, t')) sB = (Inr dead, sC)"
    and rel: "release_if me n own sC = (Inr (), sD)"
    and upd: "update_meta cv sD = (Inr (), sE)"
    and add: "add_to_insert_stack n dead (save_database sE) = (Inr (), sG)"
    and s1: "s1 = save_database sG"
    unfolding delete_from_def by (auto simp: then_do_ok lift_ok)
  have vA: "view n t (VList old) (tables (load_database s))"
    by (rule view_load [OF nd v0])
  have vB: "view n t (VList old) (tables sB)"
    by (rule view_step [OF vA]) (simp_all add: lock_table_tables [OF lock] names)
  then have tB: "map_of (tables sB) n = Some t" by (simp add: view_def)
  with dl obtain t1 where dw: "delete_where t cnd = Inr (t1, dead)" and sC: "sC = put_table n t1 sB"
    by (auto simp: on_table_def split: sum.splits prod.splits)
  have vC: "view n t1 (VList old) (tables sC)"
    using vB names by (auto simp: view_def sC)
  have vD: "view n t1 (VList old) (tables sD)"
    by (rule view_step [OF vC]) (simp_all add: release_if_tables [OF rel] names)
  have vE: "view n t1 (VList old) (tables sE)"
    by (rule validD [OF view_update_meta [OF nm] vD upd])
  then have vF: "view n t1 (VList old) (tables (save_database sE))" by simp
  from add obtain sG' where "update_meta_insert_stack_for_tb n (VList (old @ dead)) (save_database sE)
      = (Inr (), sG)"
    by (simp add: add_to_insert_stack_def then_do_def get_stack_view [OF vF])
  moreover from set_stack_view [OF vF names(1), of "VList (old @ dead)"]
  obtain s' where "update_meta_insert_stack_for_tb n (VList (old @ dead)) (save_database sE)
      = (Inr (), s')" and "view n t1 (VList (old @ dead)) (tables s')"
    by blast
  ultimately have vG: "view n t1 (VList (old @ dead)) (tables sG)" by simp
  from view_save_disk [OF vG] s1 dw show ?thesis by blast
qed


lemma catch_reraise_ok:
  "catch m (\<lambda>e. then_do (k e) (\<lambda>_. raise e)) s = (Inr a, s') \<Longrightarrow> m s = (Inr a, s')"
  by (auto simp: catch_def then_do_def raise_def split: prod.splits sum.splits)

lemma insert_pops_position:
  assumes nm: "take 4 n \<noteq> ''meta''" and nd: "no_dots (disk s1)"
    and v1: "view n t1 (VList st) (disk s1)"
    and ins: "insert_into cv me n row_str s1 = (Inr (), s2)"
  shows "\<exists>t2. insert_row cv t1 (map VStr (split_on CHR '','' (strip row_str))) st = Inr t2 \<and>
              view n t2 (VList (butlast st)) (disk s2)"
proof -
  note names = not_meta_names [OF nm]
  let ?row = "map VStr (split_on CHR '','' (strip row_str))"
  from ins obtain own sB insert_stack sC st' sD sE sF sG where
    lock: "lock_table cv me n ''x'' (load_database s1) = (Inr own, sB)"
    and gs: "get_insert_stack_for_table n sB = (Inr insert_stack, sC)"
    and ctch: "catch
                 (case insert_stack of
                    VList st \<Rightarrow>
                      then_do (on_table n (atomic (\<lambda>t. insert_row cv t ?row st)))
                        (\<lambda>_. ret st)
                  | _ \<Rightarrow> raise TypeError)
                 (\<lambda>e. then_do (release_if me n own) (\<lambda>_. raise e)) sC = (Inr st', sD)"
    and us: "update_meta_insert_stack_for_tb n (VList (butlast st')) sD = (Inr (), sE)"
    and rel: "release_if me n own sE = (Inr (), sF)"
    and upd: "update_meta cv sF = (Inr (), sG)"
    and s2: "s2 = save_database sG"
    unfolding insert_into_def Let_def by (auto simp: then_do_ok lift_ok)
  have vB: "view n t1 (VList st) (tables sB)"
    by (rule view_step [OF view_load [OF nd v1]]) (simp_all add: lock_table_tables [OF lock] names)
  from gs get_stack_view [OF vB] have stk: "insert_stack = VList st" and sC: "sC = sB" by simp_all
  from catch_reraise_ok [OF ctch]
  have "then_do (on_table n (atomic (\<lambda>t. insert_row cv t ?row st))) (\<lambda>_. ret st) sB = (Inr st', sD)"
    by (simp add: stk sC)
  then have st': "st' = st" and ot: "on_table n (atomic (\<lambda>t. insert_row cv t ?row st)) sB = (Inr (), sD)"
    by (auto simp: then_do_ok ret_def)
  from vB have tB: "map_of (tables sB) n = Some t1" by (simp add: view_def)
  with ot obtain t2 where ir: "insert_row cv t1 ?row st = Inr t2" and sD: "sD = put_table n t2 sB"
    by (auto simp: on_table_def atomic_def split: sum.splits)
  have vD: "view n t2 (VList st) (tables sD)"
    using vB names by (auto simp: view_def sD)
  from set_stack_view [OF vD names(1), of "VList (butlast st)"] us
  have vE: "view n t2 (VList (butlast st)) (tables sE)" by (auto simp: st')
  have vF: "view n t2 (VList (butlast st)) (tables sF)"
    by (rule view_step [OF vE]) (simp_all add: release_if_tables [OF rel] names)
  have vG: "view n t2 (VList (butlast st)) (tables sG)"
    by (rule validD [OF view_update_meta [OF nm] vF upd])
  from view_save_disk [OF vG] s2 ir show ?thesis by blast
qed

lemma delete_where_tombstones:
  assumes "delete_where t cnd = Inr (t1, dead)" and "take 4 (t_name t) \<noteq> ''meta''"
  shows "length (data t1) = length (data t)"
    and "\<forall>p \<in> set dead. p < length (data t1) \<and> tombstone (data t1 ! p)"
    and "column_types t1 = column_types t"
  using assms
  by (auto simp: delete_where_def Let_def tombstone_def list_all_iff split: option.splits)

lemma insert_row_at_top:
  assumes "insert_row cv t1 row st = Inr t2" and "st \<noteq> []"
  shows "last st < length (data t1) \<and> length (data t2) = length (data t1) \<and>
         (\<exists>r. coerce_row cv (column_types t1) row = Some r \<and> data t2 = (data t1)[last st := r])"
  using assms by (auto simp: insert_row_def split: if_splits option.splits)

text \<open>
  C7. Let \<open>n\<close> be a non-meta table, persisted as \<open>t\<close> with the free-position stack
  \<open>old\<close>, and let no persisted table have a dot in its name, before the deletion and
  before the insertion (the reload names a table by its file name up to the first dot).
  A successful \<^verbatim>\<open>delete_from\<close> overwrites the matching rows with
  tombstones, keeps the number of rows, and persists the stack \<open>old @ dead\<close>, where
  \<open>dead\<close> are the freed positions. A successful \<^verbatim>\<open>insert_into\<close> that follows
  persists the stack without its last element and, when the stack was not empty, writes
  the converted row at that last position and appends nothing.
\<close>

theorem delete_then_insert_reuses_position:
  assumes "take 4 n \<noteq> ''meta''" and "t_name t = n" and "view n t (VList old) (disk s)"
    and "delete_from cv me n cnd s = (Inr (), s1)"
    and "insert_into cv me n row_str s1 = (Inr (), s2)"
    and "no_dots (disk s)" and "no_dots (disk s1)"
  shows "\<exists>t1 dead t2.
           delete_where t cnd = Inr (t1, dead) \<and>
           length (data t1) = length (data t) \<and>
           (\<forall>p \<in> set dead. p < length (data t1) \<and> tombstone (data t1 ! p)) \<and>
           view n t1 (VList (old @ dead)) (disk s1) \<and>
           view n t2 (VList (butlast (old @ dead))) (disk s2) \<and>
           (old @ dead \<noteq> [] \<longrightarrow>
              last (old @ dead) < length (data t1) \<and> length (data t2) = length (data t1) \<and>
              (\<exists>r. coerce_row cv (column_types t)
                      (map VStr (split_on CHR '','' (strip row_str))) = Some r \<and>
                    data t2 = (data t1)[last (old @ dead) := r]))"
proof -
  from delete_records_positions [OF assms(1,6,3,4)] obtain t1 dead where
    dw: "delete_where t cnd = Inr (t1, dead)" and v1: "view n t1 (VList (old @ dead)) (disk s1)"
    by blast
  from insert_pops_position [OF assms(1,7) v1 assms(5)] obtain t2 where
    ir: "insert_row cv t1 (map VStr (split_on CHR '','' (strip row_str))) (old @ dead) = Inr t2"
    and v2: "view n t2 (VList (butlast (old @ dead))) (disk s2)"
    by blast
  from assms(1,2) have nm: "take 4 (t_name t) \<noteq> ''meta''" by simp
  note tomb = delete_where_tombstones [OF dw nm]
  have "old @ dead \<noteq> [] \<longrightarrow>
              last (old @ dead) < length (data t1) \<and> length (data t2) = length (data t1) \<and>
              (\<exists>r. coerce_row cv (column_types t)
                      (map VStr (split_on CHR '','' (strip row_str))) = Some r \<and>
                    data t2 = (data t1)[last (old @ dead) := r])"
    using insert_row_at_top [OF ir] tomb(3) by simp
  with dw tomb(1,2) v1 v2 show ?thesis by blast
qed


text \<open>
  The scenario of the spec: rows \<open>(1, a)\<close> and \<open>(2, b)\<close>; deleting \<^verbatim>\<open>id = 1\<close>
  frees position 0; inserting \<open>(3, c)\<close> reuses it.
\<close>

theorem delete_then_insert_reuses_position_witness:
  "fst (delete_from sample_coerce 7 ''people'' (eq_cond ''id'' (VInt 1))
          (sample_db [] [] [] [[VInt 1, VStr ''a''], [VInt 2, VStr ''b'']])) = Inr () \<and>
   map_of (disk (snd (delete_from sample_coerce 7 ''people'' (eq_cond ''id'' (VInt 1))
          (sample_db [] [] [] [[VInt 1, VStr ''a''], [VInt 2, VStr ''b'']])))) ''people''
     = Some (people_table [[VNone, VNone], [VInt 2, VStr ''b'']]) \<and>
   map_of (disk (snd (delete_from sample_coerce 7 ''people'' (eq_cond ''id'' (VInt 1))
          (sample_db [] [] [] [[VInt 1, VStr ''a''], [VInt 2, VStr ''b'']])))) ''meta_insert_stack''
     = Some (meta_insert_stack_table [[VStr ''people'', VList [0]]]) \<and>
   fst (insert_into sample_coerce 7 ''people'' ''3,c''
          (snd (delete_from sample_coerce 7 ''people'' (eq_cond ''id'' (VInt 1))
             (sample_db [] [] [] [[VInt 1, VStr ''a''], [VInt 2, VStr ''b'']])))) = Inr () \<and>
   map_of (disk (snd (insert_into sample_coerce 7 ''people'' ''3,c''
          (snd (delete_from sample_coerce 7 ''people'' (eq_cond ''id'' (VInt 1))
             (sample_db [] [] [] [[VInt 1, VStr ''a''], [VInt 2, VStr ''b'']])))))) ''people''
     = Some (people_table [[VInt 3, VStr ''c''], [VInt 2, VStr ''b'']]) \<and>
   (\<exists>t2. view ''people'' t2 (VList [])
      (disk (snd (insert_into sample_coerce 7 ''people'' ''3,c''
          (snd (delete_from sample_coerce 7 ''people'' (eq_cond ''id'' (VInt 1))
             (sample_db [] [] [] [[VInt 1, VStr ''a''], [VInt 2, VStr ''b'']])))))))"
proof -
  let ?s = "sample_db [] [] [] [[VInt 1, VStr ''a''], [VInt 2, VStr ''b'']]"
  let ?t = "people_table [[VInt 1, VStr ''a''], [VInt 2, VStr ''b'']]"
  let ?s1 = "snd (delete_from sample_coerce 7 ''people'' (eq_cond ''id'' (VInt 1)) ?s)"
  let ?s2 = "snd (insert_into sample_coerce 7 ''people'' ''3,c'' ?s1)"
  have d: "fst (delete_from sample_coerce 7 ''people'' (eq_cond ''id'' (VInt 1)) ?s) = Inr ()"
    by code_simp
  have i: "fst (insert_into sample_coerce 7 ''people'' ''3,c'' ?s1) = Inr ()"
    by code_simp
  have p1: "map_of (disk ?s1) ''people'' = Some (people_table [[VNone, VNone], [VInt 2, VStr ''b'']])"
    by code_simp
  have q1: "map_of (disk ?s1) ''meta_insert_stack''
              = Some (meta_insert_stack_table [[VStr ''people'', VList [0]]])"
    by code_simp
  have p2: "map_of (disk ?s2) ''people'' = Some (people_table [[VInt 3, VStr ''c''], [VInt 2, VStr ''b'']])"
    by code_simp
  have h1: "take 4 ''people'' \<noteq> ''meta''" by simp
  have h2: "t_name ?t = ''people''" by (simp add: people_table_def)
  have h3: "view ''people'' ?t (VList []) (disk ?s)"
    by (simp add: view_def sample_db_def sample_simps stack_schema_def free_stack_def
        meta_insert_stack_table_def cell_def)
  have h4: "delete_from sample_coerce 7 ''people'' (eq_cond ''id'' (VInt 1)) ?s = (Inr (), ?s1)"
    using d by (simp add: prod_eq_iff)
  have h5: "insert_into sample_coerce 7 ''people'' ''3,c'' ?s1 = (Inr (), ?s2)"
    using i by (simp add: prod_eq_iff)
  have dw: "delete_where ?t (eq_cond ''id'' (VInt 1)) =
              Inr (people_table [[VNone, VNone], [VInt 2, VStr ''b'']], [0])"
    by code_simp
  have h6: "no_dots (disk ?s)" by code_simp
  have h7: "no_dots (disk ?s1)" by code_simp
  from delete_then_insert_reuses_position [OF h1 h2 h3 h4 h5 h6 h7]
  have "\<exists>t2. view ''people'' t2 (VList []) (disk ?s2)"
    by (auto simp: dw)
  with d i p1 q1 p2 show ?thesis by simp
qed

end
